theory Spec2Isabelle
  imports Main
begin

section \<open>Data model of \<^verbatim>\<open>generate_cards_pdf.py\<close>\<close>

text \<open>
  Exceptions the modelled functions can raise. A result is \<open>error + 'a\<close>, with \<open>Inl\<close>
  the raised exception.
\<close>

datatype error = KeyError | IndexError | ZeroDivisionError | FileNotFoundError

definition then_do :: "error + 'a \<Rightarrow> ('a \<Rightarrow> error + 'b) \<Rightarrow> error + 'b" where
  "then_do r f = (case r of Inl e \<Rightarrow> Inl e | Inr x \<Rightarrow> f x)"

text \<open>
  A \<^verbatim>\<open>pathlib.Path\<close> is held as its parsed components; \<^verbatim>\<open>Path.name\<close> is the last
  component, or the empty string when there is none.
\<close>

datatype path = Path "string list"

fun name :: "path \<Rightarrow> string" where
  "name (Path ps) = (if ps = [] then [] else last ps)"

text \<open>The enum \<^verbatim>\<open>CardType\<close>; \<open>CardType_value\<close> is the member's \<^verbatim>\<open>.value\<close>.\<close>

datatype CardType = VILLAGER | WEREWOLF | FEATHERS | CAPTAIN | BACK

fun CardType_value :: "CardType \<Rightarrow> string" where
  "CardType_value VILLAGER = ''Simple Villageois.png''"
| "CardType_value WEREWOLF = ''Loup Garou.png''"
| "CardType_value FEATHERS = ''Plumes du corbeau.png''"
| "CardType_value CAPTAIN = ''Capitaine.png''"
| "CardType_value BACK = ''Dos-Cartes.png''"

definition CardType_members :: "CardType list" where
  "CardType_members = [VILLAGER, WEREWOLF, FEATHERS, CAPTAIN, BACK]"

text \<open>The module's constant dictionaries, as association lists in declaration order.\<close>

definition CARD_QUANTITIES :: "(CardType \<times> int) list" where
  "CARD_QUANTITIES = [(VILLAGER, 6), (WEREWOLF, 4), (FEATHERS, 2), (CAPTAIN, 2)]"

definition QUANTITY_KEYS :: "(CardType \<times> string) list" where
  "QUANTITY_KEYS =
     [(VILLAGER, ''villageois_count''), (WEREWOLF, ''loup_garou_count''),
      (FEATHERS, ''plumes_corbeau_count''), (CAPTAIN, ''capitaine_count'')]"

definition PRESENCE_FLAGS :: "(CardType \<times> string) list" where
  "PRESENCE_FLAGS =
     [(VILLAGER, ''has_villageois''), (WEREWOLF, ''has_loup_garou''),
      (FEATHERS, ''has_plumes_corbeau''), (CAPTAIN, ''has_capitaine''),
      (BACK, ''has_dos'')]"

definition DOUBLE_SIDED_CARDS :: "CardType list" where
  "DOUBLE_SIDED_CARDS = [VILLAGER, CAPTAIN, FEATHERS]"

text \<open>
  The values stored in the \<^verbatim>\<open>quantities\<close> dictionary: integers and, for the presence
  flags, booleans. A Python \<^verbatim>\<open>bool\<close> is an \<^verbatim>\<open>int\<close> in arithmetic and comparisons.
\<close>

datatype pyval = PInt int | PBool bool

fun as_int :: "pyval \<Rightarrow> int" where
  "as_int (PInt i) = i"
| "as_int (PBool b) = (if b then 1 else 0)"

text \<open>\<^verbatim>\<open>d[k]\<close> on a dictionary raises \<^verbatim>\<open>KeyError\<close> when the key is missing.\<close>

definition getitem :: "('k \<rightharpoonup> 'v) \<Rightarrow> 'k \<Rightarrow> error + 'v" where
  "getitem d k = (case d k of None \<Rightarrow> Inl KeyError | Some v \<Rightarrow> Inr v)"

record CardInventory =
  categorized :: "CardType \<rightharpoonup> path list"
  others :: "path list"
  quantities :: "string \<rightharpoonup> pyval"

definition total_face_cards :: "CardInventory \<Rightarrow> error + pyval" where
  "total_face_cards inventory = getitem (quantities inventory) ''total_cartes_face''"

definition back_count :: "CardInventory \<Rightarrow> error + pyval" where
  "back_count inventory = getitem (quantities inventory) ''dos_count''"

definition total_cards :: "CardInventory \<Rightarrow> error + pyval" where
  "total_cards inventory = getitem (quantities inventory) ''total_cartes''"

section \<open>Inventory builder\<close>

text \<open>
  \<^verbatim>\<open>_calculate_quantities\<close>. The first loop runs over \<^verbatim>\<open>CARD_QUANTITIES.items()\<close> and reads
  \<^verbatim>\<open>QUANTITY_KEYS[card_type]\<close>; the last loop runs over \<^verbatim>\<open>PRESENCE_FLAGS.items()\<close>.
  \<open>double_sided_reduction\<close> is computed by the source and never read.
\<close>

fun base_quantities ::
  "(CardType \<rightharpoonup> path list) \<Rightarrow> (CardType \<times> int) list \<Rightarrow> (string \<rightharpoonup> pyval)
     \<Rightarrow> error + (string \<rightharpoonup> pyval)" where
  "base_quantities cat [] q = Inr q"
| "base_quantities cat ((card_type, base_qty) # rest) q =
     then_do (getitem (map_of QUANTITY_KEYS) card_type) (\<lambda>key.
       base_quantities cat rest
         (q(key \<mapsto> PInt (if cat card_type \<noteq> None then base_qty else 0))))"

fun presence_flags ::
  "(CardType \<rightharpoonup> path list) \<Rightarrow> (CardType \<times> string) list \<Rightarrow> (string \<rightharpoonup> pyval)
     \<Rightarrow> (string \<rightharpoonup> pyval)" where
  "presence_flags cat [] q = q"
| "presence_flags cat ((card_type, flag_key) # rest) q =
     presence_flags cat rest (q(flag_key \<mapsto> PBool (cat card_type \<noteq> None)))"

definition double_sided_reduction :: "(CardType \<rightharpoonup> path list) \<Rightarrow> int" where
  "double_sided_reduction cat =
     sum_list (map (\<lambda>card_type. 2) (filter (\<lambda>card_type. cat card_type \<noteq> None) DOUBLE_SIDED_CARDS))"

definition calculate_quantities ::
  "(CardType \<rightharpoonup> path list) \<Rightarrow> path list \<Rightarrow> error + (string \<rightharpoonup> pyval)" where
  "calculate_quantities cat oth =
     then_do (base_quantities cat CARD_QUANTITIES Map.empty) (\<lambda>q1.
       let q2 = q1(''autres_cartes'' \<mapsto> PInt (int (length oth)));
           total_face = int (length oth) +
             sum_list (map (\<lambda>key. case q2 key of None \<Rightarrow> 0 | Some v \<Rightarrow> as_int v)
                           (map snd QUANTITY_KEYS));
           q3 = q2(''total_cartes_face'' \<mapsto> PInt total_face);
           reduction = double_sided_reduction cat;
           q4 = q3(''dos_count'' \<mapsto>
                   PInt (if cat BACK \<noteq> None then max 0 (total_face - 6) else 0))
       in then_do (getitem q4 ''dos_count'') (\<lambda>dos.
            let q5 = q4(''total_cartes'' \<mapsto> PInt (total_face + as_int dos))
            in Inr (presence_flags cat PRESENCE_FLAGS q5)))"

text \<open>
  \<^verbatim>\<open>categorize_cards\<close>. \<open>type_mapping\<close> is the dictionary from each member's value to
  the member; \<open>categorized\<close> is a \<^verbatim>\<open>defaultdict(list)\<close>, so appending under a missing key
  starts from the empty list.
\<close>

definition type_mapping :: "string \<rightharpoonup> CardType" where
  "type_mapping = map_of (map (\<lambda>card_type. (CardType_value card_type, card_type)) CardType_members)"

fun categorize_loop ::
  "path list \<Rightarrow> (CardType \<rightharpoonup> path list) \<Rightarrow> path list
     \<Rightarrow> (CardType \<rightharpoonup> path list) \<times> path list" where
  "categorize_loop [] cat oth = (cat, oth)"
| "categorize_loop (card_path # rest) cat oth =
     (case type_mapping (name card_path) of
        Some card_type \<Rightarrow>
          categorize_loop rest
            (cat(card_type \<mapsto> (case cat card_type of None \<Rightarrow> [] | Some ps \<Rightarrow> ps) @ [card_path]))
            oth
      | None \<Rightarrow> categorize_loop rest cat (oth @ [card_path]))"

definition categorize_cards :: "path list \<Rightarrow> error + CardInventory" where
  "categorize_cards card_files =
     (case categorize_loop card_files Map.empty [] of (cat, oth) \<Rightarrow>
        then_do (calculate_quantities cat oth) (\<lambda>q.
          Inr \<lparr>categorized = cat, others = oth, quantities = q\<rparr>))"

section \<open>Card list expansion\<close>

text \<open>
  \<^verbatim>\<open>xs[i]\<close> on a list: a negative index counts from the end, an index out of range
  raises \<^verbatim>\<open>IndexError\<close>. \<open>py_range a b\<close> is \<^verbatim>\<open>range(a, b)\<close>, empty when \<open>b \<le> a\<close>.
\<close>

definition getitem_list :: "'a list \<Rightarrow> int \<Rightarrow> error + 'a" where
  "getitem_list xs i =
     (if 0 \<le> i then
        (if i < int (length xs) then Inr (xs ! nat i) else Inl IndexError)
      else
        (if - int (length xs) \<le> i then Inr (xs ! nat (int (length xs) + i))
         else Inl IndexError))"

definition py_range :: "int \<Rightarrow> int \<Rightarrow> int list" where
  "py_range a b = map (\<lambda>k. a + int k) [0..<nat (b - a)]"

fun for_each :: "('a \<Rightarrow> error + 'b) \<Rightarrow> 'a list \<Rightarrow> error + 'b list" where
  "for_each f [] = Inr []"
| "for_each f (x # xs) =
     then_do (f x) (\<lambda>y. then_do (for_each f xs) (\<lambda>ys. Inr (y # ys)))"

text \<open>
  \<^verbatim>\<open>_prepare_card_list\<close>. The loop condition is evaluated left to right with short
  circuit, so \<^verbatim>\<open>quantities[quantity_key]\<close> is read only for a category that is a key of
  \<^verbatim>\<open>categorized\<close>; the representative \<^verbatim>\<open>categorized[card_type][0]\<close> is read when the
  quantity is positive.
\<close>

fun prepare_loop :: "CardInventory \<Rightarrow> CardType list \<Rightarrow> path list \<Rightarrow> error + path list" where
  "prepare_loop inventory [] cards = Inr cards"
| "prepare_loop inventory (card_type # rest) cards =
     (case map_of QUANTITY_KEYS card_type of
        None \<Rightarrow> prepare_loop inventory rest cards
      | Some quantity_key \<Rightarrow>
          if quantity_key \<noteq> [] \<and> categorized inventory card_type \<noteq> None then
            then_do (getitem (quantities inventory) quantity_key) (\<lambda>v.
              if as_int v > 0 then
                then_do (getitem (categorized inventory) card_type) (\<lambda>ps.
                  then_do (getitem_list ps 0) (\<lambda>p.
                    prepare_loop inventory rest (cards @ replicate (nat (as_int v)) p)))
              else prepare_loop inventory rest cards)
          else prepare_loop inventory rest cards)"

definition prepare_card_list :: "CardInventory \<Rightarrow> error + path list" where
  "prepare_card_list inventory =
     then_do (prepare_loop inventory [VILLAGER, WEREWOLF, FEATHERS, CAPTAIN] []) (\<lambda>cards1.
       let cards2 = cards1 @ others inventory
       in if categorized inventory BACK \<noteq> None then
            then_do (back_count inventory) (\<lambda>b.
              if as_int b > 0 then
                then_do (getitem (categorized inventory) BACK) (\<lambda>ps.
                  then_do (getitem_list ps 0) (\<lambda>p.
                    Inr (cards2 @ replicate (nat (as_int b)) p)))
              else Inr cards2)
          else Inr cards2)"

section \<open>Instructions summary\<close>

text \<open>
  \<^verbatim>\<open>str\<close> of an integer in decimal, and of a dictionary value as an f-string prints it.
\<close>

function str_nat :: "nat \<Rightarrow> string" where
  "str_nat n = (if n < 10 then [''0123456789'' ! n]
                else str_nat (n div 10) @ [''0123456789'' ! (n mod 10)])"
  by pat_completeness auto
termination
  by (relation "measure (\<lambda>n. n)") auto

definition str_int :: "int \<Rightarrow> string" where
  "str_int i = (if i < 0 then ''-'' @ str_nat (nat (- i)) else str_nat (nat i))"

fun str_pyval :: "pyval \<Rightarrow> string" where
  "str_pyval (PInt i) = str_int i"
| "str_pyval (PBool b) = (if b then ''True'' else ''False'')"

text \<open>
  The source file is UTF-8; its non-ASCII characters are given by their bytes:
  the bullet U+2022, the arrow U+2192 and e with acute accent U+00E9.
\<close>

definition bullet :: string where
  "bullet = [CHR 0xE2, CHR 0x80, CHR 0xA2]"

definition arrow :: string where
  "arrow = [CHR 0xE2, CHR 0x86, CHR 0x92]"

definition e_acute :: string where
  "e_acute = [CHR 0xC3, CHR 0xA9]"

definition type_to_desc :: "(CardType \<times> string) list" where
  "type_to_desc =
     [(VILLAGER, ''Villageois '' @ arrow @ '' 3x Villageois-Villageois''),
      (WEREWOLF, ''Loup Garou (s'' @ e_acute @ ''par'' @ e_acute @ ''s)''),
      (FEATHERS, ''Plumes '' @ arrow @ '' 1x coll'' @ e_acute @ ''e''),
      (CAPTAIN, ''Capitaine '' @ arrow @ '' 1x coll'' @ e_acute @ ''e'')]"

definition quantity_line :: "pyval \<Rightarrow> string \<Rightarrow> string" where
  "quantity_line v desc = bullet @ '' '' @ str_pyval v @ ''x '' @ desc"

definition total_line :: "int \<Rightarrow> string" where
  "total_line n = ''Total final : '' @ str_int n @ '' cartes physiques''"

fun summary_loop ::
  "CardInventory \<Rightarrow> (CardType \<times> string) list \<Rightarrow> string list \<Rightarrow> error + string list" where
  "summary_loop inventory [] items = Inr items"
| "summary_loop inventory ((card_type, desc) # rest) items =
     (case map_of QUANTITY_KEYS card_type of
        None \<Rightarrow> summary_loop inventory rest items
      | Some qty_key \<Rightarrow>
          if qty_key \<noteq> [] \<and> categorized inventory card_type \<noteq> None then
            then_do (getitem (quantities inventory) qty_key) (\<lambda>v.
              if as_int v > 0 then
                summary_loop inventory rest (items @ [quantity_line v desc])
              else summary_loop inventory rest items)
          else summary_loop inventory rest items)"

definition generate_content_summary :: "CardInventory \<Rightarrow> error + string list" where
  "generate_content_summary inventory =
     then_do (summary_loop inventory type_to_desc []) (\<lambda>items1.
     then_do (getitem (quantities inventory) ''autres_cartes'') (\<lambda>autres.
       let items2 = (if as_int autres > 0
                     then items1 @ [quantity_line autres (''Cartes sp'' @ e_acute @ ''ciales'')]
                     else items1)
       in then_do (if categorized inventory BACK \<noteq> None
                   then then_do (back_count inventory) (\<lambda>b.
                          Inr (items2 @ [quantity_line b ''Dos'']))
                   else Inr items2) (\<lambda>items3.
          then_do (total_face_cards inventory) (\<lambda>tf.
            Inr (items3 @ ['''', total_line (as_int tf - 3)])))))"

section \<open>Pagination\<close>

text \<open>
  \<^verbatim>\<open>LayoutConfig\<close>. The two lengths are floating-point numbers in the source; no
  modelled function computes with them, so their type is left as a parameter.
\<close>

record 'f LayoutConfig =
  card_size :: 'f
  cards_per_row :: int
  cards_per_col :: int
  horizontal_spacing :: 'f

definition cards_per_page :: "'f LayoutConfig \<Rightarrow> int" where
  "cards_per_page layout = cards_per_row layout * cards_per_col layout"

text \<open>
  \<^verbatim>\<open>_draw_card\<close> turns the position on the page into a grid cell by integer division and
  remainder; the call to the canvas (image, or placeholder when drawing fails) is
  recorded as the cell it fills.
\<close>

record draw_call =
  card_path :: path
  position :: int
  row :: int
  col :: int

definition draw_card :: "'f LayoutConfig \<Rightarrow> path \<Rightarrow> int \<Rightarrow> error + draw_call" where
  "draw_card layout cp pos =
     (if cards_per_row layout = 0 then Inl ZeroDivisionError
      else Inr \<lparr>card_path = cp, position = pos,
                row = pos div cards_per_row layout, col = pos mod cards_per_row layout\<rparr>)"

text \<open>
  \<^verbatim>\<open>_add_card_pages\<close>: the result has one list of draw calls per iteration of the outer
  loop, that is per page, \<^verbatim>\<open>showPage\<close> being called between two iterations.
\<close>

definition add_card_pages :: "path list \<Rightarrow> 'f LayoutConfig \<Rightarrow> error + draw_call list list" where
  "add_card_pages cards layout =
     (if cards_per_page layout = 0 then Inl ZeroDivisionError
      else
        let total_pages = (int (length cards) + cards_per_page layout - 1) div cards_per_page layout
        in for_each (\<lambda>page_num.
             let start_idx = page_num * cards_per_page layout;
                 end_idx = min (start_idx + cards_per_page layout) (int (length cards))
             in for_each (\<lambda>i.
                  then_do (getitem_list cards i) (\<lambda>cp. draw_card layout cp (i - start_idx)))
                  (py_range start_idx end_idx))
             (py_range 0 total_pages))"

section \<open>Scan, document and entry point\<close>








section \<open>Vocabulary of the statements\<close>

text \<open>
  The files of a scan whose name is exactly the file name of a category, in scan order,
  and the files whose name is the file name of no category.
\<close>

definition matching :: "CardType \<Rightarrow> path list \<Rightarrow> path list" where
  "matching card_type card_files = filter (\<lambda>p. name p = CardType_value card_type) card_files"

definition uncategorized :: "path list \<Rightarrow> path list" where
  "uncategorized card_files =
     filter (\<lambda>p. name p \<notin> set (map CardType_value CardType_members)) card_files"

definition has_file :: "CardType \<Rightarrow> path list \<Rightarrow> bool" where
  "has_file card_type card_files = (\<exists>p\<in>set card_files. name p = CardType_value card_type)"

text \<open>
  The first file of a list repeated \<open>n\<close> times (nothing when the list is empty); a scan
  with every file of a category after the first removed; and the key under which the
  number of printed copies of a category is stored.
\<close>

definition repeated :: "nat \<Rightarrow> path list \<Rightarrow> path list" where
  "repeated n ps = (case ps of [] \<Rightarrow> [] | p # _ \<Rightarrow> replicate n p)"

fun keep_first :: "CardType \<Rightarrow> path list \<Rightarrow> path list" where
  "keep_first card_type [] = []"
| "keep_first card_type (p # ps) =
     (if name p = CardType_value card_type
      then p # filter (\<lambda>r. name r \<noteq> CardType_value card_type) ps
      else p # keep_first card_type ps)"

fun count_key :: "CardType \<Rightarrow> string" where
  "count_key VILLAGER = ''villageois_count''"
| "count_key WEREWOLF = ''loup_garou_count''"
| "count_key FEATHERS = ''plumes_corbeau_count''"
| "count_key CAPTAIN = ''capitaine_count''"
| "count_key BACK = ''dos_count''"

text \<open>
  The description of a category in the summary, and the summary line of a quantity:
  present when the quantity is positive.
\<close>

definition desc_of :: "CardType \<Rightarrow> string" where
  "desc_of card_type = (case map_of type_to_desc card_type of None \<Rightarrow> [] | Some desc \<Rightarrow> desc)"

definition summary_line :: "int \<Rightarrow> string \<Rightarrow> string list" where
  "summary_line n desc = (if 0 < n then [quantity_line (PInt n) desc] else [])"

text \<open>
  The draw call that fills the cell of a position, and the draw calls of page \<open>k\<close>:
  the cards from index \<open>k\<close> times the page capacity on, at most one page of them.
\<close>

definition cell :: "'f LayoutConfig \<Rightarrow> path \<Rightarrow> int \<Rightarrow> draw_call" where
  "cell layout cp pos =
     \<lparr>card_path = cp, position = pos,
      row = pos div cards_per_row layout, col = pos mod cards_per_row layout\<rparr>"

definition chunk :: "'f LayoutConfig \<Rightarrow> path list \<Rightarrow> nat \<Rightarrow> draw_call list" where
  "chunk layout cards k =
     map (\<lambda>j. cell layout (cards ! (k * nat (cards_per_page layout) + j)) (int j))
       [0..<min (nat (cards_per_page layout)) (length cards - k * nat (cards_per_page layout))]"


text \<open>
  The integer that a decimal numeral denotes: an optional minus sign and digits, with
  no leading zero, no sign before zero and nothing else. Two different numerals denote
  two different integers.
\<close>

definition digit_value :: "char \<Rightarrow> nat option" where
  "digit_value ch =
     (if ch = CHR ''0'' then Some 0 else if ch = CHR ''1'' then Some 1
      else if ch = CHR ''2'' then Some 2 else if ch = CHR ''3'' then Some 3
      else if ch = CHR ''4'' then Some 4 else if ch = CHR ''5'' then Some 5
      else if ch = CHR ''6'' then Some 6 else if ch = CHR ''7'' then Some 7
      else if ch = CHR ''8'' then Some 8 else if ch = CHR ''9'' then Some 9
      else None)"

fun read_digits :: "string \<Rightarrow> nat \<Rightarrow> nat option" where
  "read_digits [] acc = Some acc"
| "read_digits (ch # rest) acc =
     (case digit_value ch of None \<Rightarrow> None | Some d \<Rightarrow> read_digits rest (10 * acc + d))"

definition read_int :: "string \<Rightarrow> int option" where
  "read_int s =
     (case s of
        [] \<Rightarrow> None
      | ch # rest \<Rightarrow>
          if ch = CHR ''-'' then
            (case rest of
               [] \<Rightarrow> None
             | d # _ \<Rightarrow> if d = CHR ''0'' then None
                        else map_option (\<lambda>n. - int n) (read_digits rest 0))
          else if ch = CHR ''0'' then (if rest = [] then Some 0 else None)
          else map_option int (read_digits s 0))"

text \<open>
  Auxiliary functions of the proofs: the dictionary \<open>categorized\<close> after a scan, the
  quantity of a category, the number of face cards and the number of backs, as functions
  of the categorized files.
\<close>

definition scanned :: "path list \<Rightarrow> CardType \<rightharpoonup> path list" where
  "scanned fs = (\<lambda>ct. if matching ct fs = [] then None else Some (matching ct fs))"

definition qty :: "(CardType \<rightharpoonup> path list) \<Rightarrow> CardType \<Rightarrow> int" where
  "qty cat ct = (if cat ct = None then 0 else case map_of CARD_QUANTITIES ct of None \<Rightarrow> 0 | Some n \<Rightarrow> n)"

definition face_total :: "(CardType \<rightharpoonup> path list) \<Rightarrow> path list \<Rightarrow> int" where
  "face_total cat oth = int (length oth) +
       (qty cat VILLAGER + (qty cat WEREWOLF + (qty cat FEATHERS + qty cat CAPTAIN)))"

definition dos :: "(CardType \<rightharpoonup> path list) \<Rightarrow> path list \<Rightarrow> int" where
  "dos cat oth = (if cat BACK \<noteq> None then max 0 (face_total cat oth - 6) else 0)"

section \<open>Properties of the inventory builder\<close>

lemma type_mapping_simps:
  "type_mapping s = (if s = ''Simple Villageois.png'' then Some VILLAGER
     else if s = ''Loup Garou.png'' then Some WEREWOLF
     else if s = ''Plumes du corbeau.png'' then Some FEATHERS
     else if s = ''Capitaine.png'' then Some CAPTAIN
     else if s = ''Dos-Cartes.png'' then Some BACK else None)"
  by (simp add: type_mapping_def CardType_members_def)

lemma type_mapping_Some_iff: "type_mapping s = Some ct \<longleftrightarrow> s = CardType_value ct"
  by (cases ct) (simp_all add: type_mapping_simps)

lemma known_name_iff:
  "s \<in> set (map CardType_value CardType_members) \<longleftrightarrow> (\<exists>ct. s = CardType_value ct)"
proof
  assume "s \<in> set (map CardType_value CardType_members)"
  then show "\<exists>ct. s = CardType_value ct" by auto
next
  assume "\<exists>ct. s = CardType_value ct"
  then obtain ct where "s = CardType_value ct" ..
  then show "s \<in> set (map CardType_value CardType_members)"
    by (cases ct) (simp_all add: CardType_members_def)
qed

lemma type_mapping_None_iff:
  "type_mapping s = None \<longleftrightarrow> s \<notin> set (map CardType_value CardType_members)"
  unfolding known_name_iff by (metis type_mapping_Some_iff not_Some_eq)

lemma CardType_value_inj: "CardType_value c = CardType_value ct \<longleftrightarrow> c = ct"
  by (metis type_mapping_Some_iff option.inject)

lemma matching_Nil: "matching ct [] = []"
  by (simp add: matching_def)

lemma matching_Cons:
  "matching ct (p # fs) = (if name p = CardType_value ct then p # matching ct fs else matching ct fs)"
  by (simp add: matching_def)

lemma uncategorized_Nil: "uncategorized [] = []"
  by (simp add: uncategorized_def)

lemma uncategorized_Cons:
  "uncategorized (p # fs) =
     (if name p \<in> set (map CardType_value CardType_members) then uncategorized fs
      else p # uncategorized fs)"
  by (simp add: uncategorized_def)

lemma categorize_loop_eq:
  "categorize_loop fs cat oth =
     ((\<lambda>ct. if cat ct = None \<and> matching ct fs = [] then None
            else Some ((case cat ct of None \<Rightarrow> [] | Some ps \<Rightarrow> ps) @ matching ct fs)),
      oth @ uncategorized fs)"
proof (induction fs arbitrary: cat oth)
  case Nil
  show ?case by (auto simp: matching_Nil uncategorized_Nil split: option.splits)
next
  case (Cons p fs)
  show ?case
  proof (cases "type_mapping (name p)")
    case None
    then have nn: "name p \<notin> set (map CardType_value CardType_members)"
      using type_mapping_None_iff by blast
    then have "\<And>ct. name p \<noteq> CardType_value ct"
      using known_name_iff by blast
    then have m: "\<And>ct. matching ct (p # fs) = matching ct fs"
      by (simp add: matching_Cons)
    have u: "uncategorized (p # fs) = p # uncategorized fs"
      using nn by (simp only: uncategorized_Cons if_False)
    show ?thesis
      unfolding categorize_loop.simps None option.case Cons.IH u m by simp
  next
    case (Some c)
    then have n: "name p = CardType_value c" by (simp add: type_mapping_Some_iff)
    then have "name p \<in> set (map CardType_value CardType_members)"
      unfolding known_name_iff by blast
    then have u: "uncategorized (p # fs) = uncategorized fs"
      by (simp only: uncategorized_Cons if_True)
    show ?thesis
      unfolding categorize_loop.simps Some option.case Cons.IH u
      by (rule arg_cong2 [where f = Pair, OF _ refl], rule ext)
         (auto simp: matching_Cons n CardType_value_inj split: option.splits cong: if_cong)
  qed
qed

lemma categorize_loop_empty:
  "categorize_loop fs Map.empty [] = (scanned fs, uncategorized fs)"
  by (simp add: categorize_loop_eq scanned_def cong: if_cong)

lemma base_quantities_eq:
  "base_quantities cat CARD_QUANTITIES Map.empty =
     Inr [''villageois_count'' \<mapsto> PInt (qty cat VILLAGER),
          ''loup_garou_count'' \<mapsto> PInt (qty cat WEREWOLF),
          ''plumes_corbeau_count'' \<mapsto> PInt (qty cat FEATHERS),
          ''capitaine_count'' \<mapsto> PInt (qty cat CAPTAIN)]"
  by (simp add: CARD_QUANTITIES_def QUANTITY_KEYS_def then_do_def getitem_def qty_def)

lemma calculate_quantities_eq:
  "calculate_quantities cat oth = Inr (presence_flags cat PRESENCE_FLAGS
      [''villageois_count'' \<mapsto> PInt (qty cat VILLAGER),
       ''loup_garou_count'' \<mapsto> PInt (qty cat WEREWOLF),
       ''plumes_corbeau_count'' \<mapsto> PInt (qty cat FEATHERS),
       ''capitaine_count'' \<mapsto> PInt (qty cat CAPTAIN),
       ''autres_cartes'' \<mapsto> PInt (int (length oth)),
       ''total_cartes_face'' \<mapsto> PInt (face_total cat oth),
       ''dos_count'' \<mapsto> PInt (dos cat oth),
       ''total_cartes'' \<mapsto> PInt (face_total cat oth + dos cat oth)])"
  by (simp add: calculate_quantities_def base_quantities_eq then_do_def getitem_def Let_def
        QUANTITY_KEYS_def face_total_def dos_def)

lemma qty_simps:
  "qty cat VILLAGER = (if cat VILLAGER \<noteq> None then 6 else 0)"
  "qty cat WEREWOLF = (if cat WEREWOLF \<noteq> None then 4 else 0)"
  "qty cat FEATHERS = (if cat FEATHERS \<noteq> None then 2 else 0)"
  "qty cat CAPTAIN = (if cat CAPTAIN \<noteq> None then 2 else 0)"
  "qty cat BACK = 0"
  by (simp_all add: qty_def CARD_QUANTITIES_def)

lemma calculate_quantities_lookup:
  assumes "calculate_quantities cat oth = Inr q"
  shows "q ''villageois_count'' = Some (PInt (qty cat VILLAGER))"
    and "q ''loup_garou_count'' = Some (PInt (qty cat WEREWOLF))"
    and "q ''plumes_corbeau_count'' = Some (PInt (qty cat FEATHERS))"
    and "q ''capitaine_count'' = Some (PInt (qty cat CAPTAIN))"
    and "q ''autres_cartes'' = Some (PInt (int (length oth)))"
    and "q ''total_cartes_face'' = Some (PInt (face_total cat oth))"
    and "q ''dos_count'' = Some (PInt (dos cat oth))"
    and "q ''total_cartes'' = Some (PInt (face_total cat oth + dos cat oth))"
  using assms unfolding calculate_quantities_eq
  by (auto simp: PRESENCE_FLAGS_def)

lemma matching_empty_iff: "matching ct fs = [] \<longleftrightarrow> \<not> has_file ct fs"
  by (auto simp: matching_def has_file_def filter_empty_conv)

lemma scanned_None_iff: "scanned fs ct = None \<longleftrightarrow> \<not> has_file ct fs"
  by (simp add: scanned_def matching_empty_iff)

lemma categorize_cards_eq:
  "categorize_cards fs = Inr inventory \<longleftrightarrow>
     (\<exists>q. calculate_quantities (scanned fs) (uncategorized fs) = Inr q \<and>
          inventory = \<lparr>categorized = scanned fs, others = uncategorized fs, quantities = q\<rparr>)"
  by (auto simp: categorize_cards_def categorize_loop_empty then_do_def split: sum.splits)

lemma categorize_cards_Inr:
  obtains q where "calculate_quantities (scanned fs) (uncategorized fs) = Inr q"
    and "categorize_cards fs =
           Inr \<lparr>categorized = scanned fs, others = uncategorized fs, quantities = q\<rparr>"
  using calculate_quantities_eq [of "scanned fs" "uncategorized fs"]
  by (simp add: categorize_cards_eq)

text \<open>
  Claim C1. Whatever the categorized files and the other files are,
  \<^verbatim>\<open>_calculate_quantities\<close> returns a dictionary in which the number of backs is
  \<open>max 0 (total_cartes_face - 6)\<close> when the back image is a key of \<open>categorized\<close> and 0
  otherwise, and the total is the number of face cards plus the number of backs. With
  all five categories present and three other files the three numbers are 17, 11
  and 28.
\<close>

theorem calculate_quantities_back_count:
  "\<exists>q tf b. calculate_quantities cat oth = Inr q
     \<and> q ''total_cartes_face'' = Some (PInt tf)
     \<and> q ''dos_count'' = Some (PInt b)
     \<and> b = (if cat BACK \<noteq> None then max 0 (tf - 6) else 0)
     \<and> q ''total_cartes'' = Some (PInt (tf + b))
     \<and> ((\<forall>card_type. cat card_type \<noteq> None) \<and> length oth = 3
          \<longrightarrow> tf = 17 \<and> b = 11 \<and> tf + b = 28)"
proof -
  obtain q where q: "calculate_quantities cat oth = Inr q"
    using calculate_quantities_eq by blast
  let ?tf = "face_total cat oth" and ?b = "dos cat oth"
  have "(\<forall>card_type. cat card_type \<noteq> None) \<and> length oth = 3 \<longrightarrow> ?tf = 17 \<and> ?b = 11 \<and> ?tf + ?b = 28"
    by (simp add: face_total_def dos_def qty_simps)
  moreover have "?b = (if cat BACK \<noteq> None then max 0 (?tf - 6) else 0)"
    by (simp add: dos_def)
  ultimately show ?thesis
    using q calculate_quantities_lookup(6,7,8) [OF q] by blast
qed

theorem calculate_quantities_back_count_witness:
  "(\<forall>card_type. (\<lambda>ct. Some [Path [''Cartes'', CardType_value ct]]) card_type \<noteq> None)
   \<and> length [Path [''Cartes'', ''a.png''], Path [''Cartes'', ''b.png''], Path [''Cartes'', ''c.png'']] = 3
   \<and> (\<exists>q. calculate_quantities (\<lambda>ct. Some [Path [''Cartes'', CardType_value ct]])
             [Path [''Cartes'', ''a.png''], Path [''Cartes'', ''b.png''], Path [''Cartes'', ''c.png'']] = Inr q
          \<and> q ''total_cartes_face'' = Some (PInt 17)
          \<and> q ''dos_count'' = Some (PInt 11)
          \<and> q ''total_cartes'' = Some (PInt 28))"
  using calculate_quantities_back_count
    [of "\<lambda>ct. Some [Path [''Cartes'', CardType_value ct]]"
        "[Path [''Cartes'', ''a.png''], Path [''Cartes'', ''b.png''], Path [''Cartes'', ''c.png'']]"]
  by auto

text \<open>
  Claim C2. For every list of files, \<^verbatim>\<open>categorize_cards\<close> returns an inventory in which
  the villager, wolf, feathers and captain quantities are 6, 4, 2 and 2 when a file
  with exactly the category's file name is in the list and 0 when none is; the other
  cards are the files with no category's name, each counted once; and the number of
  face cards is the sum of the four quantities and the number of other cards. When every
  file of a non-empty list is the wolf image, the villager quantity is 0, the wolf
  quantity 4, the number of face cards 4 and the number of backs 0.
\<close>

theorem categorize_cards_quantities:
  "\<exists>inventory v w f c. categorize_cards card_files = Inr inventory
     \<and> v = (if has_file VILLAGER card_files then 6 else 0)
     \<and> w = (if has_file WEREWOLF card_files then 4 else 0)
     \<and> f = (if has_file FEATHERS card_files then 2 else 0)
     \<and> c = (if has_file CAPTAIN card_files then 2 else 0)
     \<and> quantities inventory ''villageois_count'' = Some (PInt v)
     \<and> quantities inventory ''loup_garou_count'' = Some (PInt w)
     \<and> quantities inventory ''plumes_corbeau_count'' = Some (PInt f)
     \<and> quantities inventory ''capitaine_count'' = Some (PInt c)
     \<and> others inventory = uncategorized card_files
     \<and> quantities inventory ''autres_cartes'' = Some (PInt (int (length (uncategorized card_files))))
     \<and> total_face_cards inventory = Inr (PInt (v + w + f + c + int (length (uncategorized card_files))))
     \<and> (card_files \<noteq> [] \<and> (\<forall>p\<in>set card_files. name p = CardType_value WEREWOLF)
          \<longrightarrow> v = 0 \<and> w = 4 \<and> total_face_cards inventory = Inr (PInt 4) \<and> back_count inventory = Inr (PInt 0))"
proof -
  obtain q where q: "calculate_quantities (scanned card_files) (uncategorized card_files) = Inr q"
    and inventory: "categorize_cards card_files =
      Inr \<lparr>categorized = scanned card_files, others = uncategorized card_files, quantities = q\<rparr>"
    by (rule categorize_cards_Inr)
  let ?inventory = "\<lparr>categorized = scanned card_files, others = uncategorized card_files, quantities = q\<rparr>"
  note l = calculate_quantities_lookup [OF q]
  have qs: "qty (scanned card_files) VILLAGER = (if has_file VILLAGER card_files then 6 else 0)"
    "qty (scanned card_files) WEREWOLF = (if has_file WEREWOLF card_files then 4 else 0)"
    "qty (scanned card_files) FEATHERS = (if has_file FEATHERS card_files then 2 else 0)"
    "qty (scanned card_files) CAPTAIN = (if has_file CAPTAIN card_files then 2 else 0)"
    by (simp_all add: qty_simps scanned_None_iff)
  have wolf: "total_face_cards ?inventory = Inr (PInt 4) \<and> back_count ?inventory = Inr (PInt 0)
      \<and> \<not> has_file VILLAGER card_files \<and> has_file WEREWOLF card_files"
    if ne: "card_files \<noteq> []" and all: "\<forall>p\<in>set card_files. name p = CardType_value WEREWOLF"
  proof -
    have other: "\<not> has_file ct card_files" if "ct \<noteq> WEREWOLF" for ct
      using all that unfolding has_file_def by (metis CardType_value_inj)
    have w: "has_file WEREWOLF card_files"
      using ne all by (cases card_files) (auto simp: has_file_def)
    have u: "uncategorized card_files = []"
      using all by (auto simp: uncategorized_def filter_empty_conv CardType_members_def)
    show ?thesis
      using other w
      by (simp add: total_face_cards_def back_count_def getitem_def l face_total_def dos_def qs u
            scanned_None_iff)
  qed
  have tf: "total_face_cards ?inventory = Inr (PInt ((if has_file VILLAGER card_files then 6 else 0)
     + (if has_file WEREWOLF card_files then 4 else 0) + (if has_file FEATHERS card_files then 2 else 0)
     + (if has_file CAPTAIN card_files then 2 else 0) + int (length (uncategorized card_files))))"
    by (simp add: total_face_cards_def getitem_def l face_total_def qs)
  show ?thesis
    apply (rule exI [of _ ?inventory])
    apply (intro exI conjI)
               apply (rule inventory)
              apply (rule refl)+
           apply (simp add: l qs)
          apply (simp add: l qs)
         apply (simp add: l qs)
        apply (simp add: l qs)
       apply simp
      apply (simp add: l)
     apply (rule tf)
    using wolf apply simp
    done
qed

theorem categorize_cards_quantities_witness:
  "[Path [''Cartes'', ''Loup Garou.png'']] \<noteq> []
   \<and> name (Path [''Cartes'', ''Loup Garou.png'']) = CardType_value WEREWOLF
   \<and> (\<exists>inventory. categorize_cards [Path [''Cartes'', ''Loup Garou.png'']] = Inr inventory
        \<and> quantities inventory ''villageois_count'' = Some (PInt 0)
        \<and> quantities inventory ''loup_garou_count'' = Some (PInt 4)
        \<and> total_face_cards inventory = Inr (PInt 4)
        \<and> back_count inventory = Inr (PInt 0))
   \<and> (\<exists>inventory. categorize_cards [Path [''Cartes'', ''loup garou.png'']] = Inr inventory
        \<and> quantities inventory ''loup_garou_count'' = Some (PInt 0)
        \<and> others inventory = [Path [''Cartes'', ''loup garou.png'']]
        \<and> quantities inventory ''autres_cartes'' = Some (PInt 1)
        \<and> total_face_cards inventory = Inr (PInt 1))"
  using categorize_cards_quantities [of "[Path [''Cartes'', ''Loup Garou.png'']]"]
    categorize_cards_quantities [of "[Path [''Cartes'', ''loup garou.png'']]"]
  by (auto simp: has_file_def uncategorized_def CardType_members_def)

section \<open>Properties of the card list expansion\<close>

lemma qty_pos: "ct \<noteq> BACK \<Longrightarrow> cat ct \<noteq> None \<Longrightarrow> 0 < qty cat ct"
  by (cases ct) (simp_all add: qty_simps)

lemma qty_absent: "cat ct = None \<Longrightarrow> qty cat ct = 0"
  by (simp add: qty_def)

lemma prepare_loop_step:
  assumes key: "map_of QUANTITY_KEYS ct = Some key" "key \<noteq> []"
    and q: "quantities inventory key = Some (PInt (qty (scanned fs) ct))"
    and cat: "categorized inventory = scanned fs"
    and ct: "ct \<noteq> BACK"
  shows "prepare_loop inventory (ct # rest) cards =
         prepare_loop inventory rest (cards @ repeated (nat (qty (scanned fs) ct)) (matching ct fs))"
proof (cases "matching ct fs")
  case Nil
  then have "scanned fs ct = None" by (simp add: scanned_def)
  then show ?thesis
    using key Nil by (simp add: cat repeated_def)
next
  case (Cons p ps)
  then have s: "scanned fs ct = Some (p # ps)" by (simp add: scanned_def)
  then have "0 < qty (scanned fs) ct" using qty_pos [OF ct, of "scanned fs"] by simp
  then show ?thesis
    using key Cons s q
    by (simp add: cat repeated_def getitem_def then_do_def getitem_list_def)
qed

lemma prepare_loop_scanned:
  assumes q: "calculate_quantities (scanned fs) oth = Inr q"
    and inventory: "inventory = \<lparr>categorized = scanned fs, others = oth, quantities = q\<rparr>"
  shows "prepare_loop inventory [VILLAGER, WEREWOLF, FEATHERS, CAPTAIN] [] =
     Inr (repeated (nat (qty (scanned fs) VILLAGER)) (matching VILLAGER fs)
        @ repeated (nat (qty (scanned fs) WEREWOLF)) (matching WEREWOLF fs)
        @ repeated (nat (qty (scanned fs) FEATHERS)) (matching FEATHERS fs)
        @ repeated (nat (qty (scanned fs) CAPTAIN)) (matching CAPTAIN fs))"
proof -
  note l = calculate_quantities_lookup [OF q]
  have c: "categorized inventory = scanned fs" by (simp add: inventory)
  have 1: "prepare_loop inventory (VILLAGER # rest) cards =
      prepare_loop inventory rest (cards @ repeated (nat (qty (scanned fs) VILLAGER)) (matching VILLAGER fs))"
    for rest cards
    by (rule prepare_loop_step [where key = "''villageois_count''", OF _ _ _ c]) (simp_all add: QUANTITY_KEYS_def inventory l)
  have 2: "prepare_loop inventory (WEREWOLF # rest) cards =
      prepare_loop inventory rest (cards @ repeated (nat (qty (scanned fs) WEREWOLF)) (matching WEREWOLF fs))"
    for rest cards
    by (rule prepare_loop_step [where key = "''loup_garou_count''", OF _ _ _ c]) (simp_all add: QUANTITY_KEYS_def inventory l)
  have 3: "prepare_loop inventory (FEATHERS # rest) cards =
      prepare_loop inventory rest (cards @ repeated (nat (qty (scanned fs) FEATHERS)) (matching FEATHERS fs))"
    for rest cards
    by (rule prepare_loop_step [where key = "''plumes_corbeau_count''", OF _ _ _ c]) (simp_all add: QUANTITY_KEYS_def inventory l)
  have 4: "prepare_loop inventory (CAPTAIN # rest) cards =
      prepare_loop inventory rest (cards @ repeated (nat (qty (scanned fs) CAPTAIN)) (matching CAPTAIN fs))"
    for rest cards
    by (rule prepare_loop_step [where key = "''capitaine_count''", OF _ _ _ c]) (simp_all add: QUANTITY_KEYS_def inventory l)
  show ?thesis
    unfolding 1 2 3 4 by simp
qed

lemma prepare_card_list_scanned:
  assumes q: "calculate_quantities (scanned fs) oth = Inr q"
    and inventory: "inventory = \<lparr>categorized = scanned fs, others = oth, quantities = q\<rparr>"
  shows "prepare_card_list inventory =
     Inr (repeated (nat (qty (scanned fs) VILLAGER)) (matching VILLAGER fs)
        @ repeated (nat (qty (scanned fs) WEREWOLF)) (matching WEREWOLF fs)
        @ repeated (nat (qty (scanned fs) FEATHERS)) (matching FEATHERS fs)
        @ repeated (nat (qty (scanned fs) CAPTAIN)) (matching CAPTAIN fs)
        @ oth
        @ repeated (nat (dos (scanned fs) oth)) (matching BACK fs))"
proof -
  note l = calculate_quantities_lookup [OF q]
  note loop = prepare_loop_scanned [OF q inventory]
  have b: "back_count inventory = Inr (PInt (dos (scanned fs) oth))"
    by (simp add: back_count_def getitem_def inventory l)
  show ?thesis
  proof (cases "matching BACK fs")
    case Nil
    then have "categorized inventory BACK = None" by (simp add: inventory scanned_def)
    then show ?thesis
      unfolding prepare_card_list_def loop
      by (simp add: then_do_def Nil repeated_def inventory)
  next
    case (Cons p ps)
    then have s: "categorized inventory BACK = Some (p # ps)" by (simp add: inventory scanned_def)
    show ?thesis
      unfolding prepare_card_list_def loop
      by (simp add: then_do_def Cons repeated_def s b getitem_def getitem_list_def Let_def)
         (simp add: inventory)
  qed
qed

lemma length_repeated: "length (repeated n ps) = (if ps = [] then 0 else n)"
  by (simp add: repeated_def split: list.splits)

lemma length_repeated_qty:
  "length (repeated (nat (qty (scanned fs) ct)) (matching ct fs)) = nat (qty (scanned fs) ct)"
  by (simp add: length_repeated qty_absent scanned_def)

lemma dos_nonneg: "0 \<le> dos cat oth"
  by (simp add: dos_def)

lemma dos_absent: "cat BACK = None \<Longrightarrow> dos cat oth = 0"
  by (simp add: dos_def)

lemma qty_nonneg: "0 \<le> qty cat ct"
  by (cases ct) (simp_all add: qty_simps)

lemma categorize_cards_total:
  obtains q where "calculate_quantities (scanned fs) (uncategorized fs) = Inr q"
    and "categorize_cards fs =
           Inr \<lparr>categorized = scanned fs, others = uncategorized fs, quantities = q\<rparr>"
    and "prepare_card_list \<lparr>categorized = scanned fs, others = uncategorized fs, quantities = q\<rparr> =
     Inr (repeated (nat (qty (scanned fs) VILLAGER)) (matching VILLAGER fs)
        @ repeated (nat (qty (scanned fs) WEREWOLF)) (matching WEREWOLF fs)
        @ repeated (nat (qty (scanned fs) FEATHERS)) (matching FEATHERS fs)
        @ repeated (nat (qty (scanned fs) CAPTAIN)) (matching CAPTAIN fs)
        @ uncategorized fs
        @ repeated (nat (dos (scanned fs) (uncategorized fs))) (matching BACK fs))"
proof -
  obtain q where q: "calculate_quantities (scanned fs) (uncategorized fs) = Inr q"
    and c: "categorize_cards fs =
           Inr \<lparr>categorized = scanned fs, others = uncategorized fs, quantities = q\<rparr>"
    by (rule categorize_cards_Inr)
  from that [OF q c prepare_card_list_scanned [OF q refl]] show ?thesis .
qed

lemma matching_keep_first_same:
  "matching ct (keep_first ct fs) = take 1 (matching ct fs)"
  by (induction fs) (auto simp: matching_Cons matching_Nil, simp add: matching_def)

lemma matching_keep_first_other:
  "ct' \<noteq> ct \<Longrightarrow> matching ct' (keep_first ct fs) = matching ct' fs"
proof (induction fs)
  case Nil
  show ?case by simp
next
  case (Cons p fs)
  have "matching ct' (filter (\<lambda>r. name r \<noteq> CardType_value ct) fs) = matching ct' fs"
    using Cons.prems by (auto simp: matching_def CardType_value_inj intro: filter_cong)
  with Cons show ?case
    by (simp add: matching_Cons CardType_value_inj)
qed

lemma uncategorized_keep_first: "uncategorized (keep_first ct fs) = uncategorized fs"
proof (induction fs)
  case Nil
  show ?case by simp
next
  case (Cons p fs)
  have "uncategorized (filter (\<lambda>r. name r \<noteq> CardType_value ct) fs) = uncategorized fs"
    unfolding uncategorized_def known_name_iff by (auto intro: filter_cong)
  with Cons show ?case
    by (simp add: uncategorized_Cons)
qed

lemma calculate_quantities_cong:
  assumes "\<And>ct. cat ct = None \<longleftrightarrow> cat' ct = None" and "length oth = length oth'"
  shows "calculate_quantities cat oth = calculate_quantities cat' oth'"
  unfolding calculate_quantities_eq
  by (simp add: assms qty_def face_total_def dos_def PRESENCE_FLAGS_def)


lemma repeated_take1: "repeated n (take (Suc 0) ps) = repeated n ps"
  by (cases ps) (simp_all add: repeated_def)

lemma repeated_keep_first:
  "repeated n (matching ct' (keep_first ct fs)) = repeated n (matching ct' fs)"
  by (cases "ct' = ct")
     (simp_all add: matching_keep_first_same matching_keep_first_other repeated_take1)

lemma scanned_keep_first_None:
  "scanned (keep_first ct fs) ct' = None \<longleftrightarrow> scanned fs ct' = None"
proof (cases "ct' = ct")
  case True
  then show ?thesis
    by (cases "matching ct fs") (simp_all add: scanned_def matching_keep_first_same)
next
  case False
  then show ?thesis by (simp add: scanned_def matching_keep_first_other)
qed

lemma qty_cong:
  "(\<And>c. cat c = None \<longleftrightarrow> cat' c = None) \<Longrightarrow> qty cat ct = qty cat' ct"
  by (simp add: qty_def)

lemma dos_cong:
  "(\<And>c. cat c = None \<longleftrightarrow> cat' c = None) \<Longrightarrow> length oth = length oth'
     \<Longrightarrow> dos cat oth = dos cat' oth'"
  by (simp add: dos_def face_total_def qty_def)

lemma name_matching: "p \<in> set (matching ct fs) \<Longrightarrow> name p = CardType_value ct"
  by (simp add: matching_def)

lemma filter_repeated:
  "filter (\<lambda>p. name p = CardType_value ct) (repeated n (matching ct' fs)) =
     (if ct' = ct then repeated n (matching ct fs) else [])"
proof (cases "matching ct' fs")
  case Nil
  then show ?thesis by (auto simp: repeated_def)
next
  case (Cons p ps)
  then have "name p = CardType_value ct'"
    using name_matching [of p ct' fs] by simp
  with Cons show ?thesis
    by (auto simp: repeated_def CardType_value_inj)
qed

lemma filter_uncategorized:
  "filter (\<lambda>p. name p = CardType_value ct) (uncategorized fs) = []"
  unfolding uncategorized_def known_name_iff by (auto simp: filter_empty_conv)

text \<open>
  Claim C4. For every list of files, the card list of the inventory built from it is, in
  this order: the first villager file repeated by the villager quantity, the first wolf
  file repeated by the wolf quantity, the first feathers file repeated by the feathers
  quantity, the first captain file repeated by the captain quantity, every file with no
  category's name once in scan order, and the first back file repeated by the number of
  backs. The quantities are those of the inventory: 6, 4, 2, 2 for a category with a
  file and 0 without, and for the backs the number of face cards minus 6, not below 0,
  when there is a back file and 0 when there is none.
\<close>

theorem prepare_card_list_order:
  "\<exists>inventory v w f c b.
     categorize_cards card_files = Inr inventory
     \<and> quantities inventory ''villageois_count'' = Some (PInt v)
     \<and> quantities inventory ''loup_garou_count'' = Some (PInt w)
     \<and> quantities inventory ''plumes_corbeau_count'' = Some (PInt f)
     \<and> quantities inventory ''capitaine_count'' = Some (PInt c)
     \<and> back_count inventory = Inr (PInt b)
     \<and> v = (if has_file VILLAGER card_files then 6 else 0)
     \<and> w = (if has_file WEREWOLF card_files then 4 else 0)
     \<and> f = (if has_file FEATHERS card_files then 2 else 0)
     \<and> c = (if has_file CAPTAIN card_files then 2 else 0)
     \<and> b = (if has_file BACK card_files
              then max 0 (v + w + f + c + int (length (uncategorized card_files)) - 6) else 0)
     \<and> others inventory = uncategorized card_files
     \<and> prepare_card_list inventory =
         Inr (repeated (nat v) (matching VILLAGER card_files)
            @ repeated (nat w) (matching WEREWOLF card_files)
            @ repeated (nat f) (matching FEATHERS card_files)
            @ repeated (nat c) (matching CAPTAIN card_files)
            @ uncategorized card_files
            @ repeated (nat b) (matching BACK card_files))"
proof -
  obtain q where q: "calculate_quantities (scanned card_files) (uncategorized card_files) = Inr q"
    and c: "categorize_cards card_files =
      Inr \<lparr>categorized = scanned card_files, others = uncategorized card_files, quantities = q\<rparr>"
    and p: "prepare_card_list
        \<lparr>categorized = scanned card_files, others = uncategorized card_files, quantities = q\<rparr> =
     Inr (repeated (nat (qty (scanned card_files) VILLAGER)) (matching VILLAGER card_files)
        @ repeated (nat (qty (scanned card_files) WEREWOLF)) (matching WEREWOLF card_files)
        @ repeated (nat (qty (scanned card_files) FEATHERS)) (matching FEATHERS card_files)
        @ repeated (nat (qty (scanned card_files) CAPTAIN)) (matching CAPTAIN card_files)
        @ uncategorized card_files
        @ repeated (nat (dos (scanned card_files) (uncategorized card_files))) (matching BACK card_files))"
    by (rule categorize_cards_total)
  note l = calculate_quantities_lookup [OF q]
  show ?thesis
    apply (rule exI [of _ "\<lparr>categorized = scanned card_files, others = uncategorized card_files, quantities = q\<rparr>"])
    apply (rule exI [of _ "qty (scanned card_files) VILLAGER"])
    apply (rule exI [of _ "qty (scanned card_files) WEREWOLF"])
    apply (rule exI [of _ "qty (scanned card_files) FEATHERS"])
    apply (rule exI [of _ "qty (scanned card_files) CAPTAIN"])
    apply (rule exI [of _ "dos (scanned card_files) (uncategorized card_files)"])
    apply (intro conjI)
                apply (rule c)
               apply (simp add: l)
              apply (simp add: l)
             apply (simp add: l)
            apply (simp add: l)
           apply (simp add: back_count_def getitem_def l)
          apply (simp add: qty_simps scanned_None_iff)
         apply (simp add: qty_simps scanned_None_iff)
        apply (simp add: qty_simps scanned_None_iff)
       apply (simp add: qty_simps scanned_None_iff)
      apply (simp add: dos_def face_total_def scanned_None_iff ac_simps)
     apply simp
    apply (rule p)
    done
qed

theorem prepare_card_list_order_witness:
  "\<exists>inventory.
     categorize_cards
       [Path [''Cartes'', ''Dos-Cartes.png''], Path [''Cartes'', ''Voyante.png''],
        Path [''Cartes'', ''Loup Garou.png''], Path [''Cartes'', ''Simple Villageois.png''],
        Path [''Cartes'', ''Chasseur.png''], Path [''Copie'', ''Simple Villageois.png'']] = Inr inventory
     \<and> prepare_card_list inventory =
         Inr (replicate 6 (Path [''Cartes'', ''Simple Villageois.png''])
            @ replicate 4 (Path [''Cartes'', ''Loup Garou.png''])
            @ [Path [''Cartes'', ''Voyante.png''], Path [''Cartes'', ''Chasseur.png'']]
            @ replicate 6 (Path [''Cartes'', ''Dos-Cartes.png'']))"
  using prepare_card_list_order
    [of "[Path [''Cartes'', ''Dos-Cartes.png''], Path [''Cartes'', ''Voyante.png''],
        Path [''Cartes'', ''Loup Garou.png''], Path [''Cartes'', ''Simple Villageois.png''],
        Path [''Cartes'', ''Chasseur.png''], Path [''Copie'', ''Simple Villageois.png'']]"]
  by (auto simp: matching_def uncategorized_def repeated_def CardType_members_def has_file_def)

text \<open>
  Claim C9. For every list of files, the card list of the inventory built from it has
  as many entries as the inventory's \<open>total_cartes\<close>, which is the number of face cards
  plus the number of backs.
\<close>

theorem prepare_card_list_length:
  "\<exists>inventory cards tf b.
     categorize_cards card_files = Inr inventory
     \<and> prepare_card_list inventory = Inr cards
     \<and> total_face_cards inventory = Inr (PInt tf)
     \<and> back_count inventory = Inr (PInt b)
     \<and> total_cards inventory = Inr (PInt (tf + b))
     \<and> int (length cards) = tf + b"
proof -
  obtain q where q: "calculate_quantities (scanned card_files) (uncategorized card_files) = Inr q"
    and c: "categorize_cards card_files =
      Inr \<lparr>categorized = scanned card_files, others = uncategorized card_files, quantities = q\<rparr>"
    and p: "prepare_card_list
        \<lparr>categorized = scanned card_files, others = uncategorized card_files, quantities = q\<rparr> =
     Inr (repeated (nat (qty (scanned card_files) VILLAGER)) (matching VILLAGER card_files)
        @ repeated (nat (qty (scanned card_files) WEREWOLF)) (matching WEREWOLF card_files)
        @ repeated (nat (qty (scanned card_files) FEATHERS)) (matching FEATHERS card_files)
        @ repeated (nat (qty (scanned card_files) CAPTAIN)) (matching CAPTAIN card_files)
        @ uncategorized card_files
        @ repeated (nat (dos (scanned card_files) (uncategorized card_files))) (matching BACK card_files))"
      (is "_ = Inr ?cards")
    by (rule categorize_cards_total)
  note l = calculate_quantities_lookup [OF q]
  let ?tf = "face_total (scanned card_files) (uncategorized card_files)"
  let ?b = "dos (scanned card_files) (uncategorized card_files)"
  have lb: "length (repeated (nat ?b) (matching BACK card_files)) = nat ?b"
    by (simp add: length_repeated dos_absent scanned_def)
  have len: "int (length ?cards) = ?tf + ?b"
    using qty_nonneg [of "scanned card_files"] dos_nonneg [of "scanned card_files" "uncategorized card_files"]
    by (simp add: length_repeated_qty lb face_total_def)
  show ?thesis
    apply (rule exI [of _ "\<lparr>categorized = scanned card_files, others = uncategorized card_files, quantities = q\<rparr>"])
    apply (rule exI [of _ ?cards])
    apply (rule exI [of _ ?tf])
    apply (rule exI [of _ ?b])
    apply (intro conjI)
         apply (rule c)
        apply (rule p)
       apply (simp add: total_face_cards_def getitem_def l)
      apply (simp add: back_count_def getitem_def l)
     apply (simp add: total_cards_def getitem_def l)
    apply (rule len)
    done
qed


theorem prepare_card_list_length_witness:
  "\<exists>inventory cards.
     categorize_cards
       [Path [''Cartes'', ''Dos-Cartes.png''], Path [''Cartes'', ''Voyante.png''],
        Path [''Cartes'', ''Loup Garou.png''], Path [''Cartes'', ''Simple Villageois.png'']] = Inr inventory
     \<and> prepare_card_list inventory = Inr cards
     \<and> total_cards inventory = Inr (PInt 16)
     \<and> length cards = 16"
proof -
  let ?F = "[Path [''Cartes'', ''Dos-Cartes.png''], Path [''Cartes'', ''Voyante.png''],
        Path [''Cartes'', ''Loup Garou.png''], Path [''Cartes'', ''Simple Villageois.png'']]"
  obtain inventory cards tf b where h:
    "categorize_cards ?F = Inr inventory"
    "prepare_card_list inventory = Inr cards"
    "total_cards inventory = Inr (PInt (tf + b))"
    "int (length cards) = tf + b"
    using prepare_card_list_length [of ?F] by blast
  obtain q where q: "calculate_quantities (scanned ?F) (uncategorized ?F) = Inr q"
    and i: "inventory = \<lparr>categorized = scanned ?F, others = uncategorized ?F, quantities = q\<rparr>"
    using h(1) unfolding categorize_cards_eq by blast
  have "face_total (scanned ?F) (uncategorized ?F) + dos (scanned ?F) (uncategorized ?F) = 16"
    by (simp add: face_total_def dos_def qty_simps scanned_def matching_def uncategorized_def
          CardType_members_def)
  then have "total_cards inventory = Inr (PInt 16)"
    by (simp add: total_cards_def getitem_def i calculate_quantities_lookup(8) [OF q])
  with h have "tf + b = 16" by simp
  with h \<open>total_cards inventory = Inr (PInt 16)\<close> show ?thesis by auto
qed

text \<open>
  Claim C10. When two or more files of the list carry the file name of one category,
  \<^verbatim>\<open>categorize_cards\<close> returns an inventory; all these files are recorded under the
  category, in scan order; the cards of the card list that carry this file name are all
  the first of these files, as many as the category's stored count; and the list with
  the later ones removed gives the same quantities and the same card list.
\<close>

theorem duplicate_category_files:
  assumes dup: "2 \<le> length (matching card_type card_files)"
  shows "\<exists>inventory cards n inventory1.
      categorize_cards card_files = Inr inventory
    \<and> categorized inventory card_type = Some (matching card_type card_files)
    \<and> prepare_card_list inventory = Inr cards
    \<and> quantities inventory (count_key card_type) = Some (PInt n)
    \<and> filter (\<lambda>p. name p = CardType_value card_type) cards =
        replicate (nat n) (hd (matching card_type card_files))
    \<and> matching card_type (keep_first card_type card_files) = [hd (matching card_type card_files)]
    \<and> categorize_cards (keep_first card_type card_files) = Inr inventory1
    \<and> quantities inventory1 = quantities inventory
    \<and> prepare_card_list inventory1 = Inr cards"
proof -
  let ?fs = card_files and ?ks = "keep_first card_type card_files"
  obtain q where q: "calculate_quantities (scanned ?fs) (uncategorized ?fs) = Inr q"
    and c: "categorize_cards ?fs =
      Inr \<lparr>categorized = scanned ?fs, others = uncategorized ?fs, quantities = q\<rparr>"
    and p: "prepare_card_list
        \<lparr>categorized = scanned ?fs, others = uncategorized ?fs, quantities = q\<rparr> =
     Inr (repeated (nat (qty (scanned ?fs) VILLAGER)) (matching VILLAGER ?fs)
        @ repeated (nat (qty (scanned ?fs) WEREWOLF)) (matching WEREWOLF ?fs)
        @ repeated (nat (qty (scanned ?fs) FEATHERS)) (matching FEATHERS ?fs)
        @ repeated (nat (qty (scanned ?fs) CAPTAIN)) (matching CAPTAIN ?fs)
        @ uncategorized ?fs
        @ repeated (nat (dos (scanned ?fs) (uncategorized ?fs))) (matching BACK ?fs))"
      (is "_ = Inr ?cards")
    by (rule categorize_cards_total)
  obtain q1 where q1: "calculate_quantities (scanned ?ks) (uncategorized ?ks) = Inr q1"
    and c1: "categorize_cards ?ks =
      Inr \<lparr>categorized = scanned ?ks, others = uncategorized ?ks, quantities = q1\<rparr>"
    and p1: "prepare_card_list
        \<lparr>categorized = scanned ?ks, others = uncategorized ?ks, quantities = q1\<rparr> =
     Inr (repeated (nat (qty (scanned ?ks) VILLAGER)) (matching VILLAGER ?ks)
        @ repeated (nat (qty (scanned ?ks) WEREWOLF)) (matching WEREWOLF ?ks)
        @ repeated (nat (qty (scanned ?ks) FEATHERS)) (matching FEATHERS ?ks)
        @ repeated (nat (qty (scanned ?ks) CAPTAIN)) (matching CAPTAIN ?ks)
        @ uncategorized ?ks
        @ repeated (nat (dos (scanned ?ks) (uncategorized ?ks))) (matching BACK ?ks))"
    by (rule categorize_cards_total)
  note l = calculate_quantities_lookup [OF q]
  from dup obtain p0 ps where m: "matching card_type ?fs = p0 # ps"
    by (cases "matching card_type ?fs") auto
  have same: "calculate_quantities (scanned ?ks) (uncategorized ?ks) =
              calculate_quantities (scanned ?fs) (uncategorized ?fs)"
    by (rule calculate_quantities_cong)
       (simp_all add: scanned_keep_first_None uncategorized_keep_first)
  then have qq: "q1 = q" using q q1 by simp
  have qt: "qty (scanned ?ks) ct = qty (scanned ?fs) ct" for ct
    by (rule qty_cong) (rule scanned_keep_first_None)
  have ds: "dos (scanned ?ks) (uncategorized ?fs) = dos (scanned ?fs) (uncategorized ?fs)"
    by (rule dos_cong) (simp_all add: scanned_keep_first_None)
  have p1': "prepare_card_list
        \<lparr>categorized = scanned ?ks, others = uncategorized ?ks, quantities = q1\<rparr> = Inr ?cards"
    unfolding p1 by (simp add: qt ds repeated_keep_first uncategorized_keep_first)
  define n where "n = (if card_type = BACK then dos (scanned ?fs) (uncategorized ?fs)
                       else qty (scanned ?fs) card_type)"
  have key: "q (count_key card_type) = Some (PInt n)"
    by (cases card_type) (simp_all add: n_def l)
  have "filter (\<lambda>p. name p = CardType_value card_type) ?cards =
        (if VILLAGER = card_type
         then repeated (nat (qty (scanned ?fs) VILLAGER)) (matching card_type ?fs) else [])
      @ (if WEREWOLF = card_type
         then repeated (nat (qty (scanned ?fs) WEREWOLF)) (matching card_type ?fs) else [])
      @ (if FEATHERS = card_type
         then repeated (nat (qty (scanned ?fs) FEATHERS)) (matching card_type ?fs) else [])
      @ (if CAPTAIN = card_type
         then repeated (nat (qty (scanned ?fs) CAPTAIN)) (matching card_type ?fs) else [])
      @ (if BACK = card_type
         then repeated (nat (dos (scanned ?fs) (uncategorized ?fs))) (matching card_type ?fs)
         else [])"
    by (simp add: filter_repeated filter_uncategorized)
  also have "\<dots> = repeated (nat n) (matching card_type ?fs)"
    by (cases card_type) (simp_all add: n_def)
  finally have fl: "filter (\<lambda>p. name p = CardType_value card_type) ?cards =
        replicate (nat n) (hd (matching card_type ?fs))"
    by (simp add: m repeated_def)
  have once: "matching card_type ?ks = [hd (matching card_type ?fs)]"
    by (simp add: matching_keep_first_same m)
  have cat: "scanned ?fs card_type = Some (matching card_type ?fs)"
    by (simp add: scanned_def m)
  show ?thesis
    apply (rule exI [of _ "\<lparr>categorized = scanned ?fs, others = uncategorized ?fs, quantities = q\<rparr>"])
    apply (rule exI [of _ ?cards])
    apply (rule exI [of _ n])
    apply (rule exI [of _ "\<lparr>categorized = scanned ?ks, others = uncategorized ?ks, quantities = q1\<rparr>"])
    apply (intro conjI)
            apply (rule c)
           apply (simp add: cat)
          apply (rule p)
         apply (simp add: key)
        apply (rule fl)
       apply (rule once)
      apply (rule c1)
     apply (simp add: qq)
    apply (rule p1')
    done
qed

theorem duplicate_category_files_witness:
  "2 \<le> length (matching WEREWOLF
      [Path [''Cartes'', ''Loup Garou.png''], Path [''Cartes'', ''Voyante.png''],
       Path [''Copie'', ''Loup Garou.png'']])
   \<and> (\<exists>inventory.
      categorize_cards
        [Path [''Cartes'', ''Loup Garou.png''], Path [''Cartes'', ''Voyante.png''],
         Path [''Copie'', ''Loup Garou.png'']] = Inr inventory
    \<and> categorized inventory WEREWOLF =
        Some [Path [''Cartes'', ''Loup Garou.png''], Path [''Copie'', ''Loup Garou.png'']]
    \<and> quantities inventory ''loup_garou_count'' = Some (PInt 4)
    \<and> prepare_card_list inventory =
        Inr (replicate 4 (Path [''Cartes'', ''Loup Garou.png'']) @ [Path [''Cartes'', ''Voyante.png'']]))"
proof -
  let ?F = "[Path [''Cartes'', ''Loup Garou.png''], Path [''Cartes'', ''Voyante.png''],
       Path [''Copie'', ''Loup Garou.png'']]"
  have m: "matching WEREWOLF ?F =
      [Path [''Cartes'', ''Loup Garou.png''], Path [''Copie'', ''Loup Garou.png'']]"
    by (simp add: matching_def)
  then have h: "2 \<le> length (matching WEREWOLF ?F)" by simp
  from duplicate_category_files [OF h] obtain inventory cards n where d:
    "categorize_cards ?F = Inr inventory"
    "categorized inventory WEREWOLF = Some (matching WEREWOLF ?F)"
    "prepare_card_list inventory = Inr cards"
    "quantities inventory (count_key WEREWOLF) = Some (PInt n)"
    "filter (\<lambda>p. name p = CardType_value WEREWOLF) cards =
        replicate (nat n) (hd (matching WEREWOLF ?F))"
    by blast
  obtain q where c: "categorize_cards ?F =
      Inr \<lparr>categorized = scanned ?F, others = uncategorized ?F, quantities = q\<rparr>"
    and p: "prepare_card_list
        \<lparr>categorized = scanned ?F, others = uncategorized ?F, quantities = q\<rparr> =
     Inr (repeated (nat (qty (scanned ?F) VILLAGER)) (matching VILLAGER ?F)
        @ repeated (nat (qty (scanned ?F) WEREWOLF)) (matching WEREWOLF ?F)
        @ repeated (nat (qty (scanned ?F) FEATHERS)) (matching FEATHERS ?F)
        @ repeated (nat (qty (scanned ?F) CAPTAIN)) (matching CAPTAIN ?F)
        @ uncategorized ?F
        @ repeated (nat (dos (scanned ?F) (uncategorized ?F))) (matching BACK ?F))"
    by (rule categorize_cards_total)
  from c d(1) have i: "inventory = \<lparr>categorized = scanned ?F, others = uncategorized ?F, quantities = q\<rparr>"
    by simp
  have cards: "cards = replicate 4 (Path [''Cartes'', ''Loup Garou.png'']) @ [Path [''Cartes'', ''Voyante.png'']]"
    using d(3) p unfolding i
    by (simp add: qty_simps dos_def scanned_def matching_def uncategorized_def repeated_def
          CardType_members_def)
  from d(5) have "replicate (nat n) (Path [''Cartes'', ''Loup Garou.png'']) =
      replicate 4 (Path [''Cartes'', ''Loup Garou.png''])"
    unfolding cards m by simp
  then have "nat n = 4"
    by (metis length_replicate)
  then have n: "n = 4" by simp
  show ?thesis
    using h d(1,2,3,4) unfolding m cards n
    by (intro conjI exI [of _ inventory]) simp_all
qed

section \<open>Properties of the instructions summary\<close>

lemma summary_loop_step:
  assumes key: "map_of QUANTITY_KEYS ct = Some key" "key \<noteq> []"
    and q: "quantities inventory key = Some (PInt (qty (scanned fs) ct))"
    and cat: "categorized inventory = scanned fs"
    and ct: "ct \<noteq> BACK"
  shows "summary_loop inventory ((ct, desc) # rest) items =
         summary_loop inventory rest (items @ summary_line (qty (scanned fs) ct) desc)"
proof (cases "scanned fs ct")
  case None
  then show ?thesis
    using key by (simp add: cat qty_absent summary_line_def)
next
  case (Some ps)
  then have "0 < qty (scanned fs) ct" using qty_pos [OF ct, of "scanned fs"] by simp
  then show ?thesis
    using key Some q
    by (simp add: cat getitem_def then_do_def summary_line_def)
qed

lemma summary_loop_scanned:
  assumes q: "calculate_quantities (scanned fs) oth = Inr q"
    and inventory: "inventory = \<lparr>categorized = scanned fs, others = oth, quantities = q\<rparr>"
  shows "summary_loop inventory type_to_desc [] =
     Inr (summary_line (qty (scanned fs) VILLAGER) (desc_of VILLAGER)
        @ summary_line (qty (scanned fs) WEREWOLF) (desc_of WEREWOLF)
        @ summary_line (qty (scanned fs) FEATHERS) (desc_of FEATHERS)
        @ summary_line (qty (scanned fs) CAPTAIN) (desc_of CAPTAIN))"
proof -
  note l = calculate_quantities_lookup [OF q]
  have c: "categorized inventory = scanned fs" by (simp add: inventory)
  have 1: "summary_loop inventory ((VILLAGER, desc) # rest) items =
      summary_loop inventory rest (items @ summary_line (qty (scanned fs) VILLAGER) desc)"
    for rest items desc
    by (rule summary_loop_step [where key = "''villageois_count''", OF _ _ _ c])
       (simp_all add: QUANTITY_KEYS_def inventory l)
  have 2: "summary_loop inventory ((WEREWOLF, desc) # rest) items =
      summary_loop inventory rest (items @ summary_line (qty (scanned fs) WEREWOLF) desc)"
    for rest items desc
    by (rule summary_loop_step [where key = "''loup_garou_count''", OF _ _ _ c])
       (simp_all add: QUANTITY_KEYS_def inventory l)
  have 3: "summary_loop inventory ((FEATHERS, desc) # rest) items =
      summary_loop inventory rest (items @ summary_line (qty (scanned fs) FEATHERS) desc)"
    for rest items desc
    by (rule summary_loop_step [where key = "''plumes_corbeau_count''", OF _ _ _ c])
       (simp_all add: QUANTITY_KEYS_def inventory l)
  have 4: "summary_loop inventory ((CAPTAIN, desc) # rest) items =
      summary_loop inventory rest (items @ summary_line (qty (scanned fs) CAPTAIN) desc)"
    for rest items desc
    by (rule summary_loop_step [where key = "''capitaine_count''", OF _ _ _ c])
       (simp_all add: QUANTITY_KEYS_def inventory l)
  have d: "type_to_desc = [(VILLAGER, desc_of VILLAGER), (WEREWOLF, desc_of WEREWOLF),
      (FEATHERS, desc_of FEATHERS), (CAPTAIN, desc_of CAPTAIN)]"
    by (simp add: type_to_desc_def desc_of_def)
  show ?thesis
    unfolding d 1 2 3 4 by simp
qed


lemma generate_content_summary_scanned:
  assumes q: "calculate_quantities (scanned fs) oth = Inr q"
    and inventory: "inventory = \<lparr>categorized = scanned fs, others = oth, quantities = q\<rparr>"
  shows "generate_content_summary inventory =
     Inr (summary_line (qty (scanned fs) VILLAGER) (desc_of VILLAGER)
        @ summary_line (qty (scanned fs) WEREWOLF) (desc_of WEREWOLF)
        @ summary_line (qty (scanned fs) FEATHERS) (desc_of FEATHERS)
        @ summary_line (qty (scanned fs) CAPTAIN) (desc_of CAPTAIN)
        @ summary_line (int (length oth)) (''Cartes sp'' @ e_acute @ ''ciales'')
        @ (if scanned fs BACK \<noteq> None then [quantity_line (PInt (dos (scanned fs) oth)) ''Dos'']
           else [])
        @ ['''', total_line (face_total (scanned fs) oth - 3)])"
proof -
  note l = calculate_quantities_lookup [OF q]
  note loop = summary_loop_scanned [OF q inventory]
  have a: "getitem (quantities inventory) ''autres_cartes'' = Inr (PInt (int (length oth)))"
    by (simp add: getitem_def inventory l)
  have b: "back_count inventory = Inr (PInt (dos (scanned fs) oth))"
    by (simp add: back_count_def getitem_def inventory l)
  have t: "total_face_cards inventory = Inr (PInt (face_total (scanned fs) oth))"
    by (simp add: total_face_cards_def getitem_def inventory l)
  have c: "categorized inventory = scanned fs" by (simp add: inventory)
  show ?thesis
    unfolding generate_content_summary_def loop a b t c
    by (simp add: then_do_def Let_def summary_line_def)
qed

lemma small_cases:
  "k < (10::nat) \<Longrightarrow> k = 0 \<or> k = 1 \<or> k = 2 \<or> k = 3 \<or> k = 4 \<or> k = 5 \<or> k = 6 \<or> k = 7 \<or> k = 8 \<or> k = 9"
  by arith

lemma digit_value_nth: "k < 10 \<Longrightarrow> digit_value (''0123456789'' ! k) = Some k"
  using small_cases [of k] by (auto simp: digit_value_def)

lemma nonzero_digit_nth:
  "0 < k \<Longrightarrow> k < 10 \<Longrightarrow> ''0123456789'' ! k \<noteq> CHR ''0'' \<and> ''0123456789'' ! k \<noteq> CHR ''-''"
  using small_cases [of k] by auto

lemma read_digits_append:
  "read_digits (xs @ ys) acc =
     (case read_digits xs acc of None \<Rightarrow> None | Some a \<Rightarrow> read_digits ys a)"
  by (induction xs arbitrary: acc) (simp_all split: option.splits)

lemma read_digits_str_nat: "read_digits (str_nat n) 0 = Some n"
proof (induction n rule: str_nat.induct)
  case (1 n)
  show ?case
  proof (cases "n < 10")
    case True
    then have "str_nat n = [''0123456789'' ! n]" by (subst str_nat.simps) simp
    then show ?thesis using digit_value_nth [OF True] by simp
  next
    case False
    then have s: "str_nat n = str_nat (n div 10) @ [''0123456789'' ! (n mod 10)]"
      by (subst str_nat.simps) simp
    have "digit_value (''0123456789'' ! (n mod 10)) = Some (n mod 10)"
      by (rule digit_value_nth) simp
    then show ?thesis
      unfolding s read_digits_append using 1 [OF False] by simp
  qed
qed

lemma str_nat_pos:
  "0 < n \<Longrightarrow> \<exists>ch rest. str_nat n = ch # rest \<and> ch \<noteq> CHR ''0'' \<and> ch \<noteq> CHR ''-''"
proof (induction n rule: str_nat.induct)
  case (1 n)
  show ?case
  proof (cases "n < 10")
    case True
    then have "str_nat n = [''0123456789'' ! n]" by (subst str_nat.simps) simp
    then show ?thesis using nonzero_digit_nth [OF "1.prems" True] by simp
  next
    case False
    then have s: "str_nat n = str_nat (n div 10) @ [''0123456789'' ! (n mod 10)]"
      by (subst str_nat.simps) simp
    from False have "0 < n div 10" by simp
    from 1(1) [OF False this] obtain ch rest where
      "str_nat (n div 10) = ch # rest" "ch \<noteq> CHR ''0''" "ch \<noteq> CHR ''-''" by blast
    then show ?thesis unfolding s by simp
  qed
qed

lemma str_nat_0: "str_nat 0 = ''0''"
  by (subst str_nat.simps) simp

lemma read_int_str_int: "read_int (str_int i) = Some i"
proof (cases "i < 0")
  case True
  then have "0 < nat (- i)" by simp
  from str_nat_pos [OF this] obtain ch rest where
    s: "str_nat (nat (- i)) = ch # rest" "ch \<noteq> CHR ''0''" "ch \<noteq> CHR ''-''" by blast
  have "read_digits (ch # rest) 0 = Some (nat (- i))"
    using read_digits_str_nat [of "nat (- i)"] unfolding s(1) .
  then show ?thesis
    using True s(2) unfolding str_int_def read_int_def s(1) by simp
next
  case False
  show ?thesis
  proof (cases "i = 0")
    case True
    then show ?thesis by (simp add: str_int_def read_int_def str_nat_0)
  next
    case nz: False
    with False have "0 < nat i" by simp
    from str_nat_pos [OF this] obtain ch rest where
      s: "str_nat (nat i) = ch # rest" "ch \<noteq> CHR ''0''" "ch \<noteq> CHR ''-''" by blast
    have "read_digits (ch # rest) 0 = Some (nat i)"
      using read_digits_str_nat [of "nat i"] unfolding s(1) .
    then show ?thesis
      using False s(2,3) unfolding str_int_def read_int_def s(1) by simp
  qed
qed

text \<open>
  Claim C7. For every list of files, the summary of the inventory built from it is: a
  line for each of the villager, wolf, feathers and captain categories whose quantity is
  positive, in this order, showing the quantity; a line showing the number of other
  cards when this number is not 0; a line showing the number of backs when the list has
  a back file, and no such line otherwise; an empty item; and the total line, which
  shows the number of face cards minus 3. Every line is given by its text, the numbers
  in it being the decimal numerals of the quantities.
\<close>

theorem generate_content_summary_lines:
  "\<exists>inventory v w f c n b tf sv sw sf sc sn sb st.
     categorize_cards card_files = Inr inventory
     \<and> quantities inventory ''villageois_count'' = Some (PInt v)
     \<and> quantities inventory ''loup_garou_count'' = Some (PInt w)
     \<and> quantities inventory ''plumes_corbeau_count'' = Some (PInt f)
     \<and> quantities inventory ''capitaine_count'' = Some (PInt c)
     \<and> quantities inventory ''autres_cartes'' = Some (PInt n)
     \<and> n = int (length (uncategorized card_files))
     \<and> back_count inventory = Inr (PInt b)
     \<and> total_face_cards inventory = Inr (PInt tf)
     \<and> read_int sv = Some v \<and> read_int sw = Some w \<and> read_int sf = Some f
     \<and> read_int sc = Some c \<and> read_int sn = Some n \<and> read_int sb = Some b
     \<and> read_int st = Some (tf - 3)
     \<and> generate_content_summary inventory =
         Inr ((if 0 < v
               then [[CHR 0xE2, CHR 0x80, CHR 0xA2] @ '' '' @ sv @ ''x Villageois ''
                     @ [CHR 0xE2, CHR 0x86, CHR 0x92] @ '' 3x Villageois-Villageois'']
               else [])
            @ (if 0 < w
               then [[CHR 0xE2, CHR 0x80, CHR 0xA2] @ '' '' @ sw @ ''x Loup Garou (s''
                     @ [CHR 0xC3, CHR 0xA9] @ ''par'' @ [CHR 0xC3, CHR 0xA9] @ ''s)'']
               else [])
            @ (if 0 < f
               then [[CHR 0xE2, CHR 0x80, CHR 0xA2] @ '' '' @ sf @ ''x Plumes ''
                     @ [CHR 0xE2, CHR 0x86, CHR 0x92] @ '' 1x coll'' @ [CHR 0xC3, CHR 0xA9] @ ''e'']
               else [])
            @ (if 0 < c
               then [[CHR 0xE2, CHR 0x80, CHR 0xA2] @ '' '' @ sc @ ''x Capitaine ''
                     @ [CHR 0xE2, CHR 0x86, CHR 0x92] @ '' 1x coll'' @ [CHR 0xC3, CHR 0xA9] @ ''e'']
               else [])
            @ (if n \<noteq> 0
               then [[CHR 0xE2, CHR 0x80, CHR 0xA2] @ '' '' @ sn @ ''x Cartes sp''
                     @ [CHR 0xC3, CHR 0xA9] @ ''ciales'']
               else [])
            @ (if has_file BACK card_files
               then [[CHR 0xE2, CHR 0x80, CHR 0xA2] @ '' '' @ sb @ ''x Dos'']
               else [])
            @ ['''', ''Total final : '' @ st @ '' cartes physiques''])"
proof -
  let ?fs = card_files
  obtain q where q: "calculate_quantities (scanned ?fs) (uncategorized ?fs) = Inr q"
    and c: "categorize_cards ?fs =
      Inr \<lparr>categorized = scanned ?fs, others = uncategorized ?fs, quantities = q\<rparr>"
    by (rule categorize_cards_Inr)
  note l = calculate_quantities_lookup [OF q]
  note s = generate_content_summary_scanned [OF q refl]
  show ?thesis
    apply (rule exI [of _ "\<lparr>categorized = scanned ?fs, others = uncategorized ?fs, quantities = q\<rparr>"])
    apply (rule exI [of _ "qty (scanned ?fs) VILLAGER"])
    apply (rule exI [of _ "qty (scanned ?fs) WEREWOLF"])
    apply (rule exI [of _ "qty (scanned ?fs) FEATHERS"])
    apply (rule exI [of _ "qty (scanned ?fs) CAPTAIN"])
    apply (rule exI [of _ "int (length (uncategorized ?fs))"])
    apply (rule exI [of _ "dos (scanned ?fs) (uncategorized ?fs)"])
    apply (rule exI [of _ "face_total (scanned ?fs) (uncategorized ?fs)"])
    apply (rule exI [of _ "str_int (qty (scanned ?fs) VILLAGER)"])
    apply (rule exI [of _ "str_int (qty (scanned ?fs) WEREWOLF)"])
    apply (rule exI [of _ "str_int (qty (scanned ?fs) FEATHERS)"])
    apply (rule exI [of _ "str_int (qty (scanned ?fs) CAPTAIN)"])
    apply (rule exI [of _ "str_int (int (length (uncategorized ?fs)))"])
    apply (rule exI [of _ "str_int (dos (scanned ?fs) (uncategorized ?fs))"])
    apply (rule exI [of _ "str_int (face_total (scanned ?fs) (uncategorized ?fs) - 3)"])
    apply (intro conjI)
                    apply (rule c)
                   apply (simp add: l)
                  apply (simp add: l)
                 apply (simp add: l)
                apply (simp add: l)
               apply (simp add: l)
              apply (rule refl)
             apply (simp add: back_count_def getitem_def l)
            apply (simp add: total_face_cards_def getitem_def l)
           apply (rule read_int_str_int)+
    apply (simp add: s summary_line_def scanned_None_iff quantity_line_def total_line_def
        desc_of_def type_to_desc_def bullet_def arrow_def e_acute_def)
    done
qed

theorem generate_content_summary_lines_witness:
  "(\<exists>inventory.
     categorize_cards [Path [''Cartes'', ''Dos-Cartes.png''], Path [''Cartes'', ''Loup Garou.png'']]
       = Inr inventory
     \<and> back_count inventory = Inr (PInt 0)
     \<and> total_face_cards inventory = Inr (PInt 4)
     \<and> generate_content_summary inventory =
         Inr [[CHR 0xE2, CHR 0x80, CHR 0xA2] @ '' 4x Loup Garou (s'' @ [CHR 0xC3, CHR 0xA9]
                @ ''par'' @ [CHR 0xC3, CHR 0xA9] @ ''s)'',
              [CHR 0xE2, CHR 0x80, CHR 0xA2] @ '' 0x Dos'',
              '''',
              ''Total final : 1 cartes physiques''])
   \<and> (\<exists>inventory.
     categorize_cards
       [Path [''Cartes'', ''Capitaine.png''], Path [''Cartes'', ''Chasseur.png''],
        Path [''Cartes'', ''Dos-Cartes.png''], Path [''Cartes'', ''Loup Garou.png''],
        Path [''Cartes'', ''Plumes du corbeau.png''], Path [''Cartes'', ''Simple Villageois.png''],
        Path [''Cartes'', ''Sorciere.png''], Path [''Cartes'', ''Voyante.png'']] = Inr inventory
     \<and> back_count inventory = Inr (PInt 11)
     \<and> total_face_cards inventory = Inr (PInt 17)
     \<and> generate_content_summary inventory =
         Inr [[CHR 0xE2, CHR 0x80, CHR 0xA2] @ '' 6x Villageois '' @ [CHR 0xE2, CHR 0x86, CHR 0x92]
                @ '' 3x Villageois-Villageois'',
              [CHR 0xE2, CHR 0x80, CHR 0xA2] @ '' 4x Loup Garou (s'' @ [CHR 0xC3, CHR 0xA9]
                @ ''par'' @ [CHR 0xC3, CHR 0xA9] @ ''s)'',
              [CHR 0xE2, CHR 0x80, CHR 0xA2] @ '' 2x Plumes '' @ [CHR 0xE2, CHR 0x86, CHR 0x92]
                @ '' 1x coll'' @ [CHR 0xC3, CHR 0xA9] @ ''e'',
              [CHR 0xE2, CHR 0x80, CHR 0xA2] @ '' 2x Capitaine '' @ [CHR 0xE2, CHR 0x86, CHR 0x92]
                @ '' 1x coll'' @ [CHR 0xC3, CHR 0xA9] @ ''e'',
              [CHR 0xE2, CHR 0x80, CHR 0xA2] @ '' 3x Cartes sp'' @ [CHR 0xC3, CHR 0xA9] @ ''ciales'',
              [CHR 0xE2, CHR 0x80, CHR 0xA2] @ '' 11x Dos'',
              '''',
              ''Total final : 14 cartes physiques''])"
proof -
  have one: "\<exists>inventory. categorize_cards fs = Inr inventory
      \<and> back_count inventory = Inr (PInt (dos (scanned fs) (uncategorized fs)))
      \<and> total_face_cards inventory = Inr (PInt (face_total (scanned fs) (uncategorized fs)))
      \<and> generate_content_summary inventory =
          Inr (summary_line (qty (scanned fs) VILLAGER) (desc_of VILLAGER)
        @ summary_line (qty (scanned fs) WEREWOLF) (desc_of WEREWOLF)
        @ summary_line (qty (scanned fs) FEATHERS) (desc_of FEATHERS)
        @ summary_line (qty (scanned fs) CAPTAIN) (desc_of CAPTAIN)
        @ summary_line (int (length (uncategorized fs))) (''Cartes sp'' @ e_acute @ ''ciales'')
        @ (if scanned fs BACK \<noteq> None
           then [quantity_line (PInt (dos (scanned fs) (uncategorized fs))) ''Dos'']
           else [])
        @ ['''', total_line (face_total (scanned fs) (uncategorized fs) - 3)])" for fs
  proof -
    obtain inventory where h: "categorize_cards fs = Inr inventory"
      using generate_content_summary_lines [of fs] by blast
    then obtain q where q: "calculate_quantities (scanned fs) (uncategorized fs) = Inr q"
      and i: "inventory = \<lparr>categorized = scanned fs, others = uncategorized fs, quantities = q\<rparr>"
      unfolding categorize_cards_eq by blast
    note l = calculate_quantities_lookup [OF q]
    show ?thesis
      using h generate_content_summary_scanned [OF q i]
      by (intro exI [of _ inventory])
         (simp add: i back_count_def total_face_cards_def getitem_def l)
  qed
  have a: "scanned [Path [''Cartes'', ''Dos-Cartes.png''], Path [''Cartes'', ''Loup Garou.png'']] ct
        = (if ct = BACK then Some [Path [''Cartes'', ''Dos-Cartes.png'']]
           else if ct = WEREWOLF then Some [Path [''Cartes'', ''Loup Garou.png'']] else None)" for ct
    by (cases ct) (simp_all add: scanned_def matching_def)
  have ua: "uncategorized [Path [''Cartes'', ''Dos-Cartes.png''], Path [''Cartes'', ''Loup Garou.png'']] = []"
    by (simp add: uncategorized_def CardType_members_def)
  let ?B = "[Path [''Cartes'', ''Capitaine.png''], Path [''Cartes'', ''Chasseur.png''],
        Path [''Cartes'', ''Dos-Cartes.png''], Path [''Cartes'', ''Loup Garou.png''],
        Path [''Cartes'', ''Plumes du corbeau.png''], Path [''Cartes'', ''Simple Villageois.png''],
        Path [''Cartes'', ''Sorciere.png''], Path [''Cartes'', ''Voyante.png'']]"
  have b: "scanned ?B ct \<noteq> None" for ct
    by (cases ct) (simp_all add: scanned_def matching_def)
  have ub: "length (uncategorized ?B) = 3"
    by (simp add: uncategorized_def CardType_members_def)
  show ?thesis
    apply (rule conjI)
    using one [of "[Path [''Cartes'', ''Dos-Cartes.png''], Path [''Cartes'', ''Loup Garou.png'']]"]
     apply (simp add: a ua qty_simps dos_def face_total_def summary_line_def quantity_line_def
        total_line_def desc_of_def type_to_desc_def bullet_def arrow_def e_acute_def str_int_def)
    using one [of ?B]
    apply (simp add: b ub qty_simps dos_def face_total_def summary_line_def quantity_line_def
        total_line_def desc_of_def type_to_desc_def bullet_def arrow_def e_acute_def str_int_def)
    done
qed

section \<open>Properties of the pagination\<close>

lemma for_each_Inr:
  "(\<And>x. x \<in> set xs \<Longrightarrow> f x = Inr (g x)) \<Longrightarrow> for_each f xs = Inr (map g xs)"
  by (induction xs) (simp_all add: then_do_def)

lemma getitem_list_in_range:
  "0 \<le> i \<Longrightarrow> i < int (length xs) \<Longrightarrow> getitem_list xs i = Inr (xs ! nat i)"
  by (simp add: getitem_list_def)

lemma draw_card_cell:
  "cards_per_row layout \<noteq> 0 \<Longrightarrow> draw_card layout cp pos = Inr (cell layout cp pos)"
  by (simp add: draw_card_def cell_def)

lemma cards_per_row_nonzero: "0 < cards_per_page layout \<Longrightarrow> cards_per_row layout \<noteq> 0"
  by (auto simp: cards_per_page_def)

lemma range_length:
  "nat (min (int m + int c) (int n) - int m) = min c (n - m)"
  by (simp add: min_def) linarith

lemma page_eq:
  assumes pos: "0 < cards_per_page layout"
  shows "for_each (\<lambda>i. then_do (getitem_list cards i)
            (\<lambda>cp. draw_card layout cp (i - int k * cards_per_page layout)))
          (py_range (int k * cards_per_page layout)
             (min (int k * cards_per_page layout + cards_per_page layout) (int (length cards))))
       = Inr (chunk layout cards k)"
proof -
  obtain c where c: "cards_per_page layout = int c" and c0: "0 < c"
    using pos by (metis zero_less_imp_eq_int)
  have kc: "int k * int c = int (k * c)" by simp
  let ?s = "int (k * c)"
  have r: "py_range ?s (min (?s + int c) (int (length cards))) =
      map (\<lambda>j. ?s + int j) [0..<min c (length cards - k * c)]"
    by (simp only: py_range_def range_length)
  have "for_each (\<lambda>i. then_do (getitem_list cards i) (\<lambda>cp. draw_card layout cp (i - ?s)))
          (map (\<lambda>j. ?s + int j) [0..<min c (length cards - k * c)])
        = Inr (map (\<lambda>i. cell layout (cards ! nat i) (i - ?s))
                (map (\<lambda>j. ?s + int j) [0..<min c (length cards - k * c)]))"
  proof (rule for_each_Inr)
    fix i assume "i \<in> set (map (\<lambda>j. ?s + int j) [0..<min c (length cards - k * c)])"
    then obtain j where j: "i = ?s + int j" "j < c" "j < length cards - k * c" by auto
    then have "0 \<le> i" "i < int (length cards)" by linarith+
    then show "then_do (getitem_list cards i) (\<lambda>cp. draw_card layout cp (i - ?s)) =
        Inr (cell layout (cards ! nat i) (i - ?s))"
      by (simp add: getitem_list_in_range then_do_def draw_card_cell cards_per_row_nonzero [OF pos])
  qed
  also have "\<dots> = Inr (chunk layout cards k)"
    unfolding chunk_def c by (simp add: o_def nat_add_distrib nat_mult_distrib)
  finally show ?thesis unfolding r c kc .
qed


lemma total_pages_nat:
  assumes "0 < c"
  shows "(int n + int c - 1) div int c = int ((n + c - 1) div c)"
proof -
  have "int n + int c - 1 = int (n + c - 1)" using assms by linarith
  then show ?thesis by (simp only: zdiv_int)
qed

lemma add_card_pages_eq:
  assumes pos: "0 < cards_per_page layout"
  shows "add_card_pages cards layout =
     Inr (map (chunk layout cards)
            [0..<(length cards + nat (cards_per_page layout) - 1) div nat (cards_per_page layout)])"
proof -
  obtain c where c: "cards_per_page layout = int c" and c0: "0 < c"
    using pos by (metis zero_less_imp_eq_int)
  let ?m = "(length cards + c - 1) div c"
  have r: "py_range 0 ((int (length cards) + int c - 1) div int c) = map int [0..<?m]"
    by (simp add: py_range_def total_pages_nat [OF c0])
  have "for_each (\<lambda>page_num.
          for_each (\<lambda>i. then_do (getitem_list cards i)
              (\<lambda>cp. draw_card layout cp (i - page_num * cards_per_page layout)))
            (py_range (page_num * cards_per_page layout)
              (min (page_num * cards_per_page layout + cards_per_page layout) (int (length cards)))))
        (map int [0..<?m])
      = Inr (map (\<lambda>page_num. chunk layout cards (nat page_num)) (map int [0..<?m]))"
  proof (rule for_each_Inr)
    fix page_num assume "page_num \<in> set (map int [0..<?m])"
    then obtain k where k: "page_num = int k" by auto
    show "for_each (\<lambda>i. then_do (getitem_list cards i)
              (\<lambda>cp. draw_card layout cp (i - page_num * cards_per_page layout)))
            (py_range (page_num * cards_per_page layout)
              (min (page_num * cards_per_page layout + cards_per_page layout) (int (length cards))))
          = Inr (chunk layout cards (nat page_num))"
      unfolding k using page_eq [OF pos, of cards k] by simp
  qed
  then show ?thesis
    using pos unfolding add_card_pages_def Let_def c r
    by (simp add: o_def)
qed


lemma length_chunk:
  "length (chunk layout cards k) =
     min (nat (cards_per_page layout)) (length cards - k * nat (cards_per_page layout))"
  by (simp add: chunk_def)

lemma nth_chunk:
  "j < length (chunk layout cards k) \<Longrightarrow>
     chunk layout cards k ! j =
       cell layout (cards ! (k * nat (cards_per_page layout) + j)) (int j)"
  by (simp add: chunk_def)

lemma card_path_chunk:
  "map card_path (chunk layout cards k) =
     take (nat (cards_per_page layout)) (drop (k * nat (cards_per_page layout)) cards)"
proof (rule nth_equalityI)
  show "length (map card_path (chunk layout cards k)) =
      length (take (nat (cards_per_page layout)) (drop (k * nat (cards_per_page layout)) cards))"
    by (simp add: length_chunk)
next
  fix i assume "i < length (map card_path (chunk layout cards k))"
  then have i: "i < nat (cards_per_page layout)"
      "i < length cards - k * nat (cards_per_page layout)"
    by (simp_all add: length_chunk)
  then have "k * nat (cards_per_page layout) \<le> length cards" by linarith
  then have "drop (k * nat (cards_per_page layout)) cards ! i =
      cards ! (k * nat (cards_per_page layout) + i)"
    by (rule nth_drop)
  then show "map card_path (chunk layout cards k) ! i =
      take (nat (cards_per_page layout)) (drop (k * nat (cards_per_page layout)) cards) ! i"
    using i by (simp add: length_chunk nth_chunk cell_def)
qed

lemma concat_chunks:
  "concat (map (\<lambda>k. take c (drop (k * c) xs)) [0..<m]) = take (m * c) xs"
proof (induction m)
  case 0
  show ?case by simp
next
  case (Suc m)
  have "Suc m * c = m * c + c" by simp
  then have "take (Suc m * c) xs = take (m * c) xs @ take c (drop (m * c) xs)"
    by (simp only: take_add)
  with Suc show ?case by simp
qed

lemma pages_cover:
  fixes n c :: nat
  assumes "0 < c"
  shows "n \<le> ((n + c - 1) div c) * c"
proof -
  have "(n + c - 1) mod c < c" using assms by simp
  moreover have "((n + c - 1) div c) * c + (n + c - 1) mod c = n + c - 1" by simp
  ultimately show ?thesis by linarith
qed

lemma pages_tight:
  fixes n c k :: nat
  assumes "0 < c" and "k < (n + c - 1) div c"
  shows "k * c < n"
proof -
  have "Suc k \<le> (n + c - 1) div c" using assms(2) by simp
  then have "Suc k * c \<le> ((n + c - 1) div c) * c" by (rule mult_le_mono1)
  also have "\<dots> \<le> n + c - 1" by simp
  finally show ?thesis using assms(1) by simp
qed

lemma full_page:
  fixes n c k :: nat
  assumes "0 < c" and "Suc k < (n + c - 1) div c"
  shows "min c (n - k * c) = c"
proof -
  have "Suc k * c < n" using assms by (rule pages_tight)
  then show ?thesis by simp
qed

lemma cell_in_grid:
  assumes r: "0 < cards_per_row layout"
    and j: "int j < cards_per_page layout"
  shows "0 \<le> col (cell layout cp (int j)) \<and> col (cell layout cp (int j)) < cards_per_row layout
       \<and> 0 \<le> row (cell layout cp (int j)) \<and> row (cell layout cp (int j)) < cards_per_col layout"
proof -
  let ?r = "cards_per_row layout"
  have "?r * (int j div ?r) + int j mod ?r = int j" by simp
  moreover have "0 \<le> int j mod ?r" using r by simp
  ultimately have "?r * (int j div ?r) \<le> int j" by linarith
  also have "\<dots> < ?r * cards_per_col layout" using j by (simp add: cards_per_page_def)
  finally have "int j div ?r < cards_per_col layout"
    using r by (simp add: mult_less_cancel_left_pos)
  moreover have "0 \<le> int j div ?r"
    using r by (simp add: pos_imp_zdiv_nonneg_iff)
  ultimately show ?thesis using r by (simp add: cell_def)
qed

lemma add_card_pages_concrete:
  "add_card_pages [Path [''a.png''], Path [''b.png''], Path [''c.png'']]
          \<lparr>card_size = (), cards_per_row = 2, cards_per_col = 1, horizontal_spacing = ()\<rparr> =
     Inr [[\<lparr>card_path = Path [''a.png''], position = 0, row = 0, col = 0\<rparr>,
           \<lparr>card_path = Path [''b.png''], position = 1, row = 0, col = 1\<rparr>],
          [\<lparr>card_path = Path [''c.png''], position = 0, row = 0, col = 0\<rparr>]]"
  by (simp add: add_card_pages_def cards_per_page_def py_range_def then_do_def getitem_list_def
        draw_card_def upt_rec Let_def)

text \<open>
  Claim C3. For every card list and every layout whose page capacity, rows times
  columns, is positive, \<^verbatim>\<open>_add_card_pages\<close> raises nothing; the cards of its pages,
  concatenated in page order, are exactly the card list; there are as many pages as the
  length of the list divided by the capacity, rounded up; every page but the last holds
  exactly the capacity, and every page holds at least one card and at most the capacity;
  the card at position \<open>j\<close> of a page goes to row \<open>j div columns\<close> and column
  \<open>j mod columns\<close>, which for a positive number of columns lies inside the grid.
\<close>

theorem add_card_pages_pagination:
  assumes pos: "0 < cards_per_page layout"
  shows "\<exists>pages. add_card_pages cards layout = Inr pages
     \<and> concat (map (map card_path) pages) = cards
     \<and> int (length pages) =
         (int (length cards) + cards_per_page layout - 1) div cards_per_page layout
     \<and> (\<forall>k. Suc k < length pages \<longrightarrow> int (length (pages ! k)) = cards_per_page layout)
     \<and> (\<forall>pg\<in>set pages. pg \<noteq> [] \<and> int (length pg) \<le> cards_per_page layout)
     \<and> (\<forall>pg\<in>set pages. \<forall>j<length pg.
            position (pg ! j) = int j
          \<and> row (pg ! j) = int j div cards_per_row layout
          \<and> col (pg ! j) = int j mod cards_per_row layout)
     \<and> (0 < cards_per_row layout \<longrightarrow>
          (\<forall>pg\<in>set pages. \<forall>d\<in>set pg.
             0 \<le> col d \<and> col d < cards_per_row layout
           \<and> 0 \<le> row d \<and> row d < cards_per_col layout))"
proof -
  obtain c where c: "cards_per_page layout = int c" and c0: "0 < c"
    using pos by (metis zero_less_imp_eq_int)
  have nc: "nat (cards_per_page layout) = c" by (simp add: c)
  let ?n = "length cards"
  let ?m = "(?n + c - 1) div c"
  let ?pages = "map (chunk layout cards) [0..<?m]"
  have eq: "add_card_pages cards layout = Inr ?pages"
    using add_card_pages_eq [OF pos, of cards] by (simp add: nc)
  have "concat (map (map card_path) ?pages) =
      concat (map (\<lambda>k. take c (drop (k * c) cards)) [0..<?m])"
    by (simp add: o_def card_path_chunk nc)
  also have "\<dots> = take (?m * c) cards" by (rule concat_chunks)
  also have "\<dots> = cards" using pages_cover [OF c0, of ?n] by simp
  finally have cover: "concat (map (map card_path) ?pages) = cards" .
  have count: "int (length ?pages) =
      (int ?n + cards_per_page layout - 1) div cards_per_page layout"
    by (simp add: c total_pages_nat [OF c0])
  have len: "length (chunk layout cards k) = min c (?n - k * c)" for k
    by (simp add: length_chunk nc)
  have full: "int (length (?pages ! k)) = cards_per_page layout" if "Suc k < length ?pages" for k
  proof -
    from that have k: "Suc k < ?m" by simp
    then have "?pages ! k = chunk layout cards k" by simp
    then show ?thesis using full_page [OF c0 k] by (simp add: len c)
  qed
  have page: "\<exists>k<?m. pg = chunk layout cards k" if "pg \<in> set ?pages" for pg
    using that by auto
  have bounds: "pg \<noteq> [] \<and> int (length pg) \<le> cards_per_page layout"
    if "pg \<in> set ?pages" for pg
  proof -
    from page [OF that] obtain k where k: "k < ?m" "pg = chunk layout cards k" by blast
    have "k * c < ?n" using c0 k(1) by (rule pages_tight)
    then have "0 < length pg" using c0 by (simp add: k(2) len)
    moreover have "length pg \<le> c" by (simp add: k(2) len)
    ultimately show ?thesis by (auto simp: c)
  qed
  have cells: "position (pg ! j) = int j
          \<and> row (pg ! j) = int j div cards_per_row layout
          \<and> col (pg ! j) = int j mod cards_per_row layout"
    if "pg \<in> set ?pages" "j < length pg" for pg j
  proof -
    from page [OF that(1)] obtain k where k: "pg = chunk layout cards k" by blast
    show ?thesis using that(2) unfolding k by (simp add: nth_chunk cell_def)
  qed
  have grid: "0 \<le> col d \<and> col d < cards_per_row layout
           \<and> 0 \<le> row d \<and> row d < cards_per_col layout"
    if r: "0 < cards_per_row layout" and "pg \<in> set ?pages" "d \<in> set pg" for pg d
  proof -
    from page [OF that(2)] obtain k where k: "pg = chunk layout cards k" by blast
    from that(3) obtain j where j: "j < length pg" "d = pg ! j"
      by (auto simp: in_set_conv_nth)
    have "length pg \<le> c" by (simp add: k len)
    then have "int j < cards_per_page layout" using j(1) by (simp add: c)
    from cell_in_grid [OF r this] show ?thesis
      using j unfolding k by (simp add: nth_chunk)
  qed
  show ?thesis
    apply (rule exI [of _ ?pages])
    apply (intro conjI)
          apply (rule eq)
         apply (rule cover)
        apply (rule count)
       using full apply blast
      using bounds apply blast
     using cells apply blast
    using grid apply blast
    done
qed

theorem add_card_pages_pagination_witness:
  "0 < cards_per_page \<lparr>card_size = (), cards_per_row = 2, cards_per_col = 1, horizontal_spacing = ()\<rparr>
   \<and> (\<exists>pages.
        add_card_pages [Path [''a.png''], Path [''b.png''], Path [''c.png'']]
          \<lparr>card_size = (), cards_per_row = 2, cards_per_col = 1, horizontal_spacing = ()\<rparr> = Inr pages
      \<and> pages =
          [[\<lparr>card_path = Path [''a.png''], position = 0, row = 0, col = 0\<rparr>,
            \<lparr>card_path = Path [''b.png''], position = 1, row = 0, col = 1\<rparr>],
           [\<lparr>card_path = Path [''c.png''], position = 0, row = 0, col = 0\<rparr>]]
      \<and> concat (map (map card_path) pages) = [Path [''a.png''], Path [''b.png''], Path [''c.png'']]
      \<and> length pages = 2)"
proof -
  let ?L = "\<lparr>card_size = (), cards_per_row = 2, cards_per_col = 1, horizontal_spacing = ()\<rparr>"
  have h: "0 < cards_per_page ?L" by (simp add: cards_per_page_def)
  from add_card_pages_pagination [OF h, of "[Path [''a.png''], Path [''b.png''], Path [''c.png'']]"]
  obtain pages where p:
    "add_card_pages [Path [''a.png''], Path [''b.png''], Path [''c.png'']] ?L = Inr pages"
    "concat (map (map card_path) pages) = [Path [''a.png''], Path [''b.png''], Path [''c.png'']]"
    "int (length pages) =
       (int (length [Path [''a.png''], Path [''b.png''], Path [''c.png'']]) + cards_per_page ?L - 1)
          div cards_per_page ?L"
    by blast
  from p(3) have l: "length pages = 2" by (simp add: cards_per_page_def)
  from p(1) have e: "pages =
          [[\<lparr>card_path = Path [''a.png''], position = 0, row = 0, col = 0\<rparr>,
            \<lparr>card_path = Path [''b.png''], position = 1, row = 0, col = 1\<rparr>],
           [\<lparr>card_path = Path [''c.png''], position = 0, row = 0, col = 0\<rparr>]]"
    unfolding add_card_pages_concrete by simp
  from h p(1,2) l e show ?thesis by blast
qed

section \<open>Properties of the scan and of the entry point\<close>







end
